theory Spec2Isabelle
  imports Main "HOL-Library.Word"
begin

unbundle bit_operations_syntax

section \<open>Storage session: the uploader commands of \<open>commandImplementation.hpp\<close>\<close>

subsection \<open>Output sink\<close>

text \<open>
  The host object supplies \<open>yieldString\<close>, \<open>yieldBuffer\<close> and \<open>yieldError\<close>; the
  commands only ever append to it. The sink is the ordered list of fragments emitted so far.
\<close>

type_synonym byte = "8 word"

datatype fragment = YString string | YBuffer "byte list" | YError string

subsection \<open>The file system below the session\<close>

text \<open>
  \<open>open\<close>, \<open>read\<close>, \<open>write\<close>, \<open>close\<close>, \<open>remove\<close> and \<open>rename\<close> are the C library's
  calls on the mounted FAT volume. They are modelled on a store of regular files (path to
  contents) and a table of open descriptors. A call fails where the store makes it fail
  (a missing file, a closed descriptor) and, besides, wherever the environment injects a
  failure: \<open>open\<close>, \<open>read\<close>, \<open>write\<close>, \<open>remove\<close>, \<open>rename\<close>, the directory creation
  and the capacity query each take the next entry of a fault schedule, so that a theorem
  about all states is a theorem about all failure patterns. An empty schedule is a volume
  that never fails on its own. (\<open>close\<close> takes no entry: its result is never looked at.)
\<close>

datatype errno = ENOENT | EIO | EBADF | EACCES | EEXIST | ENOSPC | ENOMEM

fun strerror :: "errno \<Rightarrow> string" where
  "strerror ENOENT = ''No such file or directory''"
| "strerror EIO = ''I/O error''"
| "strerror EBADF = ''Bad file number''"
| "strerror EACCES = ''Permission denied''"
| "strerror EEXIST = ''File exists''"
| "strerror ENOSPC = ''No space left on device''"
| "strerror ENOMEM = ''Not enough space''"

text \<open>
  \<open>Fail e\<close>: the call returns its error value and sets \<open>errno\<close> to \<open>e\<close>.
  \<open>Short k\<close>: a \<open>read\<close> or \<open>write\<close> transfers at most \<open>k\<close> bytes (a full volume makes
  \<open>write\<close> return a short count without an error); other calls ignore it.
\<close>

datatype fault = NoFault | Fail errno | Short nat

datatype open_mode = RdOnly | WrCreatTrunc

record ofile =
  of_path :: string
  of_pos :: nat
  of_write :: bool

text \<open>
  The geometry \<open>f_getfree\<close> reports: \<open>fs->n_fatent\<close> (DWORD), \<open>fs->csize\<close> (WORD) and
  the free cluster count (DWORD).
\<close>

record fatfs =
  n_fatent :: "32 word"
  csize :: "16 word"
  free_clst :: "32 word"

text \<open>
  One state for the session object and the world it acts on: \<open>finished\<close> and
  \<open>workingFd\<close> are the two private fields of \<open>CommandImplementation\<close>; \<open>storagePrefix\<close> is
  what \<open>getStoragePrefix()\<close> returns (declared in \<open>uploader.hpp\<close>, a constant of the build);
  the rest is the sink and the file system.
\<close>

record sys =
  storagePrefix :: string
  finished :: bool
  workingFd :: int
  sink :: "fragment list"
  files :: "string \<rightharpoonup> byte list"
  fds :: "int \<rightharpoonup> ofile"
  next_fd :: nat
  errno :: errno
  faults :: "fault list"
  fat :: fatfs

datatype 's outcome = Returned 's | Aborted 's

text \<open>\<open>Aborted\<close>: a failed \<open>assert\<close> ends the program; the state is the one it stopped in.\<close>

fun state_of :: "'s outcome \<Rightarrow> 's" where
  "state_of (Returned s) = s"
| "state_of (Aborted s) = s"

fun and_then :: "'s outcome \<Rightarrow> ('s \<Rightarrow> 's outcome) \<Rightarrow> 's outcome" where
  "and_then (Returned s) f = f s"
| "and_then (Aborted s) f = Aborted s"

definition yieldString :: "string \<Rightarrow> sys \<Rightarrow> sys" where
  "yieldString t s = s\<lparr>sink := sink s @ [YString t]\<rparr>"

definition yieldBuffer :: "byte list \<Rightarrow> sys \<Rightarrow> sys" where
  "yieldBuffer b s = s\<lparr>sink := sink s @ [YBuffer b]\<rparr>"

definition yieldError :: "string \<Rightarrow> sys \<Rightarrow> sys" where
  "yieldError t s = s\<lparr>sink := sink s @ [YError t]\<rparr>"

definition take_fault :: "sys \<Rightarrow> fault \<times> sys" where
  "take_fault s = (case faults s of [] \<Rightarrow> (NoFault, s) | f # fs \<Rightarrow> (f, s\<lparr>faults := fs\<rparr>))"

definition alloc_fd :: "ofile \<Rightarrow> sys \<Rightarrow> int \<times> sys" where
  "alloc_fd f s =
     (let fd = int (next_fd s)
      in (fd, s\<lparr>fds := (fds s)(fd \<mapsto> f), next_fd := Suc (next_fd s)\<rparr>))"

definition sys_open :: "string \<Rightarrow> open_mode \<Rightarrow> sys \<Rightarrow> int \<times> sys" where
  "sys_open path mode s =
     (case take_fault s of
        (Fail e, s1) \<Rightarrow> (- 1, s1\<lparr>errno := e\<rparr>)
      | (_, s1) \<Rightarrow>
          (case mode of
             RdOnly \<Rightarrow>
               (case files s1 path of
                  None \<Rightarrow> (- 1, s1\<lparr>errno := ENOENT\<rparr>)
                | Some _ \<Rightarrow> alloc_fd \<lparr>of_path = path, of_pos = 0, of_write = False\<rparr> s1)
           | WrCreatTrunc \<Rightarrow>
               alloc_fd \<lparr>of_path = path, of_pos = 0, of_write = True\<rparr>
                 (s1\<lparr>files := (files s1)(path \<mapsto> [])\<rparr>)))"

definition sys_close :: "int \<Rightarrow> sys \<Rightarrow> int \<times> sys" where
  "sys_close fd s =
     (case fds s fd of
        None \<Rightarrow> (- 1, s\<lparr>errno := EBADF\<rparr>)
      | Some _ \<Rightarrow> (0, s\<lparr>fds := (fds s)(fd := None)\<rparr>))"

definition transfer_limit :: "fault \<Rightarrow> nat \<Rightarrow> nat" where
  "transfer_limit f n = (case f of Short k \<Rightarrow> min k n | _ \<Rightarrow> n)"

text \<open>\<open>read(fd, buf, n)\<close>: the count returned, the bytes put at the start of \<open>buf\<close>, the new state.\<close>

definition sys_read :: "int \<Rightarrow> nat \<Rightarrow> sys \<Rightarrow> int \<times> byte list \<times> sys" where
  "sys_read fd n s =
     (case take_fault s of
        (Fail e, s1) \<Rightarrow> (- 1, [], s1\<lparr>errno := e\<rparr>)
      | (f, s1) \<Rightarrow>
          (case fds s1 fd of
             None \<Rightarrow> (- 1, [], s1\<lparr>errno := EBADF\<rparr>)
           | Some e \<Rightarrow>
               if of_write e then (- 1, [], s1\<lparr>errno := EBADF\<rparr>)
               else
                 (case files s1 (of_path e) of
                    None \<Rightarrow> (0, [], s1)
                  | Some content \<Rightarrow>
                      (let got = take (transfer_limit f n) (drop (of_pos e) content)
                       in (int (length got), got,
                           s1\<lparr>fds := (fds s1)(fd \<mapsto> e\<lparr>of_pos := of_pos e + length got\<rparr>)\<rparr>)))))"

definition write_at :: "nat \<Rightarrow> byte list \<Rightarrow> byte list \<Rightarrow> byte list" where
  "write_at pos b old =
     take pos (old @ replicate (pos - length old) 0) @ b @ drop (pos + length b) old"

definition sys_write :: "int \<Rightarrow> byte list \<Rightarrow> sys \<Rightarrow> int \<times> sys" where
  "sys_write fd buf s =
     (case take_fault s of
        (Fail e, s1) \<Rightarrow> (- 1, s1\<lparr>errno := e\<rparr>)
      | (f, s1) \<Rightarrow>
          (case fds s1 fd of
             None \<Rightarrow> (- 1, s1\<lparr>errno := EBADF\<rparr>)
           | Some e \<Rightarrow>
               if \<not> of_write e then (- 1, s1\<lparr>errno := EBADF\<rparr>)
               else
                 (case files s1 (of_path e) of
                    None \<Rightarrow> (- 1, s1\<lparr>errno := EIO\<rparr>)
                  | Some old \<Rightarrow>
                      (let put = take (transfer_limit f (length buf)) buf
                       in (int (length put),
                           s1\<lparr>files := (files s1)(of_path e \<mapsto> write_at (of_pos e) put old),
                              fds := (fds s1)(fd \<mapsto> e\<lparr>of_pos := of_pos e + length put\<rparr>)\<rparr>)))))"

definition sys_remove :: "string \<Rightarrow> sys \<Rightarrow> int \<times> sys" where
  "sys_remove path s =
     (case take_fault s of
        (Fail e, s1) \<Rightarrow> (- 1, s1\<lparr>errno := e\<rparr>)
      | (_, s1) \<Rightarrow>
          (case files s1 path of
             None \<Rightarrow> (- 1, s1\<lparr>errno := ENOENT\<rparr>)
           | Some _ \<Rightarrow> (0, s1\<lparr>files := (files s1)(path := None)\<rparr>)))"

text \<open>
  \<open>rename\<close> on the FAT volume moves the file in one step or leaves both names as they
  were; it does not replace an existing destination (\<open>EEXIST\<close>), which is why
  \<open>commitFilePush\<close> removes the destination first.
\<close>

definition sys_rename :: "string \<Rightarrow> string \<Rightarrow> sys \<Rightarrow> int \<times> sys" where
  "sys_rename old new s =
     (case take_fault s of
        (Fail e, s1) \<Rightarrow> (- 1, s1\<lparr>errno := e\<rparr>)
      | (_, s1) \<Rightarrow>
          (case files s1 old of
             None \<Rightarrow> (- 1, s1\<lparr>errno := ENOENT\<rparr>)
           | Some content \<Rightarrow>
               (case files s1 new of
                  Some _ \<Rightarrow> (- 1, s1\<lparr>errno := EEXIST\<rparr>)
                | None \<Rightarrow> (0, s1\<lparr>files := (files s1)(old := None, new \<mapsto> content)\<rparr>))))"

text \<open>
  Modelled from the spec: \<open>jac::fs::ensurePath\<close> is declared in \<open>filesystem.hpp\<close>, which
  is not among the sources. The spec: it "ensures all intermediate directories exist" and
  returns a \<open>bool\<close>; a failure leaves \<open>errno\<close> set. Directories are not part of the file
  store, so the call changes no file.
\<close>

definition ensurePath :: "string \<Rightarrow> sys \<Rightarrow> bool \<times> sys" where
  "ensurePath path s =
     (case take_fault s of
        (Fail e, s1) \<Rightarrow> (False, s1\<lparr>errno := e\<rparr>)
      | (_, s1) \<Rightarrow> (True, s1))"

text \<open>\<open>f_getfree\<close> of the FAT driver: a non-zero result is a failure.\<close>

definition f_getfree :: "sys \<Rightarrow> int \<times> sys" where
  "f_getfree s =
     (case take_fault s of
        (Fail e, s1) \<Rightarrow> (1, s1)
      | (_, s1) \<Rightarrow> (0, s1))"

subsection \<open>Paths\<close>

definition workingFilename :: "sys \<Rightarrow> string" where
  "workingFilename s = storagePrefix s @ ''/__tmp.txt''"

text \<open>
  \<open>filename.front()\<close> of an empty string reads the terminating NUL, which is not a slash.
\<close>

definition fsPath :: "sys \<Rightarrow> string \<Rightarrow> string" where
  "fsPath s filename =
     (let path = storagePrefix s;
          path = (if (case filename of [] \<Rightarrow> True | c # _ \<Rightarrow> c \<noteq> CHR ''/'') then path @ ''/''
                  else path)
      in path @ filename)"

subsection \<open>remove, exit\<close>

definition doRemove :: "string \<Rightarrow> sys \<Rightarrow> sys" where
  "doRemove filename s =
     (let filePath = fsPath s filename;
          (r, s1) = sys_remove filePath s;
          s2 = (if r < 0 then yieldError (strerror (errno s1)) s1 else s1)
      in yieldString ''OK\<newline>'' s2)"

definition performExit :: "sys \<Rightarrow> sys" where
  "performExit s = (yieldString ''OK\<newline>'' s)\<lparr>finished := True\<rparr>"

subsection \<open>The push sequence\<close>

definition startFilePush :: "sys \<Rightarrow> sys" where
  "startFilePush s =
     (let s1 = (if workingFd s \<ge> 0 then snd (sys_close (workingFd s) s) else s);
          (fd, s2) = sys_open (workingFilename s1) WrCreatTrunc s1;
          s3 = s2\<lparr>workingFd := fd\<rparr>
      in if workingFd s3 < 0 then yieldError (strerror (errno s3)) s3 else s3)"

text \<open>The state in which \<open>startFilePush\<close> calls \<open>open\<close>: a handle still pending is closed.\<close>

abbreviation start_closed :: "sys \<Rightarrow> sys" where
  "start_closed s \<equiv> (if workingFd s \<ge> 0 then snd (sys_close (workingFd s) s) else s)"

text \<open>
  \<open>addFileChunk(buffer, size)\<close>: the chunk is the list of the \<open>size\<close> bytes at \<open>buffer\<close>.
\<close>

definition addFileChunk :: "byte list \<Rightarrow> sys \<Rightarrow> sys outcome" where
  "addFileChunk buffer s =
     (if \<not> workingFd s \<ge> 0 then Aborted s
      else
        (let (written, s1) = sys_write (workingFd s) buffer s
         in Returned (if written < 0 then yieldError (strerror (errno s1)) s1 else s1)))"

text \<open>
  \<open>commitFilePush\<close>, one definition per statement of the body, so that the states between
  the statements can be named.
\<close>

definition commit_close :: "sys \<Rightarrow> sys" where
  "commit_close s = (snd (sys_close (workingFd s) s))\<lparr>workingFd := - 1\<rparr>"

definition commit_ensure :: "string \<Rightarrow> sys \<Rightarrow> sys" where
  "commit_ensure filename s =
     (let path = fsPath s filename;
          (ok, s1) = ensurePath path s
      in if \<not> ok then yieldError (''Cannot create path '' @ path @ '': '' @ strerror (errno s1)) s1
         else s1)"

definition commit_remove :: "string \<Rightarrow> sys \<Rightarrow> sys" where
  "commit_remove filename s = snd (sys_remove (fsPath s filename) s)"

definition commit_reopen :: "sys \<Rightarrow> sys outcome" where
  "commit_reopen s =
     (let (fd, s1) = sys_open (workingFilename s) RdOnly s
      in if \<not> fd \<ge> 0 then Aborted s1 else Returned (snd (sys_close fd s1)))"

definition commit_rename :: "string \<Rightarrow> sys \<Rightarrow> sys" where
  "commit_rename filename s =
     (let (res, s1) = sys_rename (workingFilename s) (fsPath s filename) s
      in if res < 0 then yieldError (''Cannot finalize push: '' @ strerror (errno s1)) s1
         else s1)"

definition commitFilePush :: "string \<Rightarrow> sys \<Rightarrow> sys outcome" where
  "commitFilePush filename s =
     and_then (commit_reopen (commit_remove filename (commit_ensure filename (commit_close s))))
       (\<lambda>s4. Returned (yieldString ''OK\<newline>'' (commit_rename filename s4)))"

text \<open>The state after the removal of the destination, and the outcome of the re-open.\<close>

abbreviation commit_removed :: "string \<Rightarrow> sys \<Rightarrow> sys" where
  "commit_removed filename s \<equiv> commit_remove filename (commit_ensure filename (commit_close s))"

abbreviation commit_reopened :: "string \<Rightarrow> sys \<Rightarrow> sys outcome" where
  "commit_reopened filename s \<equiv>
     commit_reopen (commit_remove filename (commit_ensure filename (commit_close s)))"

text \<open>
  The states \<open>commitFilePush\<close> goes through, in order: the state it starts in and the state
  after each statement up to the re-open of the working file (the state an assertion
  failure stops in included), then, when the re-open succeeded, the states after the
  rename and after the final \<open>"OK\n"\<close>.
\<close>

definition commit_states_before_rename :: "string \<Rightarrow> sys \<Rightarrow> sys list" where
  "commit_states_before_rename filename s =
     (let s1 = commit_close s;
          s2 = commit_ensure filename s1;
          s3 = commit_remove filename s2
      in [s, s1, s2, s3, state_of (commit_reopen s3)])"

definition commit_states_after_rename :: "string \<Rightarrow> sys \<Rightarrow> sys list" where
  "commit_states_after_rename filename s =
     (case commit_reopen (commit_remove filename (commit_ensure filename (commit_close s))) of
        Aborted _ \<Rightarrow> []
      | Returned s4 \<Rightarrow>
          [commit_rename filename s4, yieldString ''OK\<newline>'' (commit_rename filename s4)])"

definition commit_states :: "string \<Rightarrow> sys \<Rightarrow> sys list" where
  "commit_states filename s =
     commit_states_before_rename filename s @ commit_states_after_rename filename s"

subsection \<open>Base64, as \<open>mbedtls_base64_encode\<close> computes it\<close>

text \<open>
  The encoder is the library's (mbed TLS, RFC 4648 with padding): whole groups of three
  bytes first, then the one or two bytes left over, padded with \<open>=\<close>. It refuses
  (\<open>MBEDTLS_ERR_BASE64_BUFFER_TOO_SMALL\<close>) when the destination cannot hold the
  encoding and its terminating NUL. \<open>size_t\<close> has 32 bits on the target.
\<close>

definition base64_enc_map :: "byte list" where
  "base64_enc_map =
     map of_char ''ABCDEFGHIJKLMNOPQRSTUVWXYZabcdefghijklmnopqrstuvwxyz0123456789+/''"

definition base64_pad :: byte where
  "base64_pad = of_char (CHR ''='')"

definition enc_char :: "byte \<Rightarrow> byte" where
  "enc_char i = base64_enc_map ! unat (i AND 0x3F)"

fun base64_encode :: "byte list \<Rightarrow> byte list" where
  "base64_encode (c1 # c2 # c3 # rest) =
     enc_char (drop_bit 2 c1)
     # enc_char (push_bit 4 (c1 AND 3) + drop_bit 4 c2)
     # enc_char (push_bit 2 (c2 AND 15) + drop_bit 6 c3)
     # enc_char c3
     # base64_encode rest"
| "base64_encode [c1, c2] =
     [enc_char (drop_bit 2 c1),
      enc_char (push_bit 4 (c1 AND 3) + drop_bit 4 c2),
      enc_char (push_bit 2 (c2 AND 15)),
      base64_pad]"
| "base64_encode [c1] =
     [enc_char (drop_bit 2 c1),
      enc_char (push_bit 4 (c1 AND 3) + drop_bit 4 0),
      base64_pad,
      base64_pad]"
| "base64_encode [] = []"

datatype base64_error = BUFFER_TOO_SMALL

definition SIZE_MAX :: nat where
  "SIZE_MAX = 2 ^ 32 - 1"

definition mbedtls_base64_encode :: "nat \<Rightarrow> byte list \<Rightarrow> nat \<Rightarrow> base64_error + byte list" where
  "mbedtls_base64_encode dlen src slen =
     (if slen = 0 then Inr []
      else
        (let n = slen div 3 + (if slen mod 3 \<noteq> 0 then 1 else 0)
         in if n > (SIZE_MAX - 1) div 4 then Inl BUFFER_TOO_SMALL
            else if dlen < n * 4 + 1 then Inl BUFFER_TOO_SMALL
            else Inr (base64_encode (take slen src))))"

text \<open>
  The decoder is the reading of "base64-decoding" the round trip is stated against: groups
  of four characters of the alphabet, padding only in the last group.
\<close>

primrec index_of :: "'a \<Rightarrow> 'a list \<Rightarrow> nat option" where
  "index_of x [] = None"
| "index_of x (y # ys) = (if x = y then Some 0 else map_option Suc (index_of x ys))"

definition dec_char :: "byte \<Rightarrow> byte option" where
  "dec_char c = map_option of_nat (index_of c base64_enc_map)"

fun base64_decode :: "byte list \<Rightarrow> byte list option" where
  "base64_decode [] = Some []"
| "base64_decode (a # b # c # d # rest) =
     (case (dec_char a, dec_char b) of
        (Some i1, Some i2) \<Rightarrow>
          (let b1 = push_bit 2 i1 OR drop_bit 4 i2
           in if rest = [] \<and> c = base64_pad \<and> d = base64_pad then Some [b1]
              else
                (case dec_char c of
                   Some i3 \<Rightarrow>
                     (let b2 = push_bit 4 i2 OR drop_bit 2 i3
                      in if rest = [] \<and> d = base64_pad then Some [b1, b2]
                         else
                           (case dec_char d of
                              Some i4 \<Rightarrow>
                                map_option (\<lambda>bs. b1 # b2 # (push_bit 6 i3 OR i4) # bs)
                                  (base64_decode rest)
                            | None \<Rightarrow> None))
                 | None \<Rightarrow> None))
      | _ \<Rightarrow> None)"
| "base64_decode _ = None"

subsection \<open>pull\<close>

definition CHUNK_SIZE :: int where
  "CHUNK_SIZE = 1023"

definition ENCODED_SIZE :: int where
  "ENCODED_SIZE = (4 * (CHUNK_SIZE + 2)) div 3 + 1"

text \<open>\<open>int bytesRead\<close> passed where a \<open>size_t\<close> is expected.\<close>

definition size_t_of_int :: "int \<Rightarrow> nat" where
  "size_t_of_int i = nat (i mod 2 ^ 32)"

definition remaining :: "int \<Rightarrow> sys \<Rightarrow> nat" where
  "remaining fd s =
     (case fds s fd of
        None \<Rightarrow> 0
      | Some e \<Rightarrow> (case files s (of_path e) of None \<Rightarrow> 0 | Some content \<Rightarrow> length content - of_pos e))"

text \<open>What a \<open>read\<close> returns; the streaming loop below ends because of it.\<close>

lemma take_fault_frame:
  "take_fault s = (f, s0) \<Longrightarrow>
     fds s0 = fds s \<and> files s0 = files s \<and> sink s0 = sink s \<and> workingFd s0 = workingFd s
     \<and> storagePrefix s0 = storagePrefix s \<and> finished s0 = finished s \<and> fat s0 = fat s
     \<and> next_fd s0 = next_fd s"
  by (auto simp: take_fault_def split: list.splits)

lemma transfer_limit_le: "transfer_limit f n \<le> n"
  by (simp add: transfer_limit_def split: fault.splits)

lemma sys_read_count:
  assumes "sys_read fd n s = (r, buf, s1)"
  shows "r = - 1 \<or> (r = int (length buf) \<and> length buf \<le> n
            \<and> (0 < length buf \<longrightarrow> remaining fd s1 < remaining fd s))"
proof -
  obtain f s0 where tf: "take_fault s = (f, s0)"
    by (cases "take_fault s")
  note fr = take_fault_frame [OF tf]
  show ?thesis
  proof (cases "fds s fd")
    case None
    with assms tf fr show ?thesis
      by (auto simp: sys_read_def split: fault.splits)
  next
    case (Some e)
    show ?thesis
    proof (cases "files s (of_path e)")
      case None
      with Some assms tf fr show ?thesis
        by (auto simp: sys_read_def split: fault.splits if_splits)
    next
      case (Some content)
      with \<open>fds s fd = Some e\<close> assms tf fr transfer_limit_le [of f n] show ?thesis
        by (auto simp: sys_read_def remaining_def Let_def split: fault.splits if_splits)
    qed
  qed
qed

lemma remaining_yieldBuffer: "remaining fd (yieldBuffer b s) = remaining fd s"
  by (simp add: remaining_def yieldBuffer_def split: option.splits)

lemma encode_refuses_failed_read:
  "mbedtls_base64_encode (nat ENCODED_SIZE) buf (size_t_of_int (- 1)) = Inl BUFFER_TOO_SMALL"
  by (simp add: mbedtls_base64_encode_def size_t_of_int_def SIZE_MAX_def ENCODED_SIZE_def
      CHUNK_SIZE_def Let_def)

text \<open>
  The streaming loop \<open>while ((bytesRead = read(...)))\<close>: it goes on for every non-zero
  count, a negative one included, and the assertion on the encoder's result is the only
  check in its body.
\<close>

function pull_loop :: "int \<Rightarrow> sys \<Rightarrow> sys outcome" where
  "pull_loop fd s =
     (case sys_read fd (nat CHUNK_SIZE) s of
        (bytesRead, fileBuffer, s1) \<Rightarrow>
          if bytesRead = 0 then Returned s1
          else
            (case mbedtls_base64_encode (nat ENCODED_SIZE) fileBuffer (size_t_of_int bytesRead) of
               Inl BUFFER_TOO_SMALL \<Rightarrow> Aborted s1
             | Inr encBuffer \<Rightarrow> pull_loop fd (yieldBuffer encBuffer s1)))"
  by pat_completeness auto
termination
proof (relation "measure (\<lambda>(fd, s). remaining fd s)")
  show "wf (measure (\<lambda>(fd, s). remaining fd s))"
    by simp
next
  fix fd :: int and s s1 :: sys and bytesRead :: int and fileBuffer encBuffer :: "byte list"
    and x2 :: "byte list \<times> sys"
  assume rd: "(bytesRead, x2) = sys_read fd (nat CHUNK_SIZE) s" "(fileBuffer, s1) = x2"
    and nz: "bytesRead \<noteq> 0"
    and enc: "mbedtls_base64_encode (nat ENCODED_SIZE) fileBuffer (size_t_of_int bytesRead)
              = Inr encBuffer"
  from rd have "sys_read fd (nat CHUNK_SIZE) s = (bytesRead, fileBuffer, s1)"
    by simp
  from sys_read_count [OF this] nz enc encode_refuses_failed_read [of fileBuffer]
  have "remaining fd s1 < remaining fd s"
    by auto
  then show "((fd, yieldBuffer encBuffer s1), (fd, s)) \<in> measure (\<lambda>(fd, s). remaining fd s)"
    by (simp add: remaining_yieldBuffer)
qed

text \<open>The equation of the loop is unfolded by hand, never by the simplifier.\<close>

declare pull_loop.simps [simp del]

definition doPull :: "string \<Rightarrow> sys \<Rightarrow> sys outcome" where
  "doPull filename s =
     (let path = fsPath s filename;
          (fd, s1) = sys_open path RdOnly s
      in if fd < 0 then Returned (yieldError (strerror (errno s1)) s1)
         else and_then (pull_loop fd s1)
                (\<lambda>s2. Returned (snd (sys_close fd (yieldString ''\<newline>'' s2)))))"

text \<open>
  "Successive fixed chunks" of a list: every chunk has \<open>n\<close> elements but the last, which
  has what is left.
\<close>

fun chunks_of :: "nat \<Rightarrow> 'a list \<Rightarrow> 'a list list" where
  "chunks_of n xs = (if n = 0 \<or> xs = [] then [] else take n xs # chunks_of n (drop n xs))"

declare chunks_of.simps [simp del]

subsection \<open>A push followed by a pull\<close>

text \<open>
  The caller's sequence \<open>startFilePush\<close>, \<open>addFileChunk\<close> for each chunk,
  \<open>commitFilePush\<close>; a failed assertion ends it.
\<close>

fun add_chunks :: "byte list list \<Rightarrow> sys \<Rightarrow> sys outcome" where
  "add_chunks [] s = Returned s"
| "add_chunks (c # cs) s = and_then (addFileChunk c s) (add_chunks cs)"

definition push_file :: "byte list list \<Rightarrow> string \<Rightarrow> sys \<Rightarrow> sys outcome" where
  "push_file chunks filename s =
     and_then (add_chunks chunks (startFilePush s)) (commitFilePush filename)"

text \<open>
  What a reader of the transport gets from the fragments of a pull: their bytes, one after
  the other; and the same without the newline that ends them.
\<close>

definition fragment_bytes :: "fragment \<Rightarrow> byte list" where
  "fragment_bytes fr =
     (case fr of YString t \<Rightarrow> map of_char t | YBuffer b \<Rightarrow> b | YError t \<Rightarrow> map of_char t)"

definition emitted_bytes :: "fragment list \<Rightarrow> byte list" where
  "emitted_bytes frs = concat (map fragment_bytes frs)"

definition strip_newline :: "byte list \<Rightarrow> byte list" where
  "strip_newline bs = (if bs \<noteq> [] \<and> last bs = of_char CHR ''\<newline>'' then butlast bs else bs)"

subsection \<open>stats\<close>

fun show_nat :: "nat \<Rightarrow> string" where
  "show_nat n =
     (if n < 10 then [char_of (48 + n)] else show_nat (n div 10) @ [char_of (48 + n mod 10)])"

definition show_int :: "int \<Rightarrow> string" where
  "show_int i = (if i < 0 then CHR ''-'' # show_nat (nat (- i)) else show_nat (nat i))"

text \<open>A product of two \<open>int\<close>s, as the 32-bit target computes it.\<close>

definition int_mul :: "int \<Rightarrow> int \<Rightarrow> int" where
  "int_mul a b = sint (word_of_int (a * b) :: 32 word)"

text \<open>
  \<open>CONFIG_WL_SECTOR_SIZE\<close> is a constant of the build configuration, a parameter here.
\<close>

definition doStats :: "int \<Rightarrow> sys \<Rightarrow> sys" where
  "doStats wl_sector_size s =
     (let (res, s1) = f_getfree s
      in if res \<noteq> 0 then yieldError ''Cannot determine free space'' s1
         else
           (let totalSectors = sint ((n_fatent (fat s1) - 2) * ucast (csize (fat s1)));
                freeSectors = sint (free_clst (fat s1) * ucast (csize (fat s1)))
            in yieldString
                 (show_int (int_mul freeSectors wl_sector_size) @ '' ''
                  @ show_int (int_mul totalSectors wl_sector_size) @ ''\<newline>'') s1))"

text \<open>A state to evaluate the commands on: an empty volume under \<open>/data\<close>, no fault scheduled.\<close>

definition demo_sys :: sys where
  "demo_sys =
     \<lparr>storagePrefix = ''/data'', finished = False, workingFd = - 1, sink = [],
      files = Map.empty, fds = Map.empty, next_fd = 3, errno = EIO, faults = [],
      fat = \<lparr>n_fatent = 1002, csize = 1, free_clst = 500\<rparr>\<rparr>"

text \<open>
  A pending upload on the empty volume (\<open>startFilePush\<close> has run), with a given fault
  schedule; the same about to accept one byte only of the next \<open>write\<close>; and a pending
  upload of three bytes over an older \<open>a.txt\<close>, the volume about to fail the fourth call
  from now, which is the \<open>rename\<close> of a commit.
\<close>

definition pending_sys :: "fault list \<Rightarrow> sys" where
  "pending_sys fs = (startFilePush demo_sys)\<lparr>faults := fs\<rparr>"

definition short_write_sys :: sys where
  "short_write_sys = pending_sys [Short 1]"

definition committing_sys :: sys where
  "committing_sys =
     (pending_sys [NoFault, NoFault, NoFault, Fail EIO])
       \<lparr>files := [''/data/__tmp.txt'' \<mapsto> [1, 2, 3], ''/data/a.txt'' \<mapsto> [9]]\<rparr>"

text \<open>The volume holding one file, \<open>a.txt\<close>.\<close>

definition stored_sys :: "byte list \<Rightarrow> sys" where
  "stored_sys content = demo_sys\<lparr>files := [''/data/a.txt'' \<mapsto> content]\<rparr>"

section \<open>Timer bridge: \<open>rtosTimers.hpp\<close>\<close>

subsection \<open>Script values and the results of native functions\<close>

text \<open>
  Script numbers are modelled by integers: the arguments the bridge reads are converted
  to \<open>int\<close> on entry (\<open>int period = duk_require_number(...)\<close>, \<open>duk_require_int\<close>), and the
  ids it hands out are \<open>int\<close>s. A function value is named by a number.
\<close>

datatype jsval = JUndefined | JNull | JBool bool | JNumber int | JString string | JFunction nat

datatype js_error = TypeError | RuntimeError string | ScriptError string

text \<open>
  A native function returns a value to the script, throws, or stops the program
  (\<open>Fatal\<close>: an assertion of the RTOS on a handle that is not a timer).
\<close>

datatype duk_ret = Returns jsval | Throws js_error | Fatal

type_synonym TimerHandle = "32 word"

text \<open>
  A native timer as \<open>xTimerCreate\<close> receives it: period in ticks, the auto-reload flag,
  and which instance of \<open>timerCallback< AutoReload >\<close> is its callback function.
\<close>

record native_timer =
  period_ticks :: "32 word"
  auto_reload :: bool
  callback_AutoReload :: bool
  active :: bool

text \<open>
  \<open>timers\<close>: the live timers of the RTOS, by handle. \<open>timerSlot\<close>: the object
  \<open><stash>.timerSlot\<close>, its property keys being numbers. \<open>scheduled\<close>: the requests
  handed to \<open>schedule\<close> and not yet run.
\<close>

record machine =
  timers :: "TimerHandle \<rightharpoonup> native_timer"
  timerSlot :: "int \<rightharpoonup> jsval"
  scheduled :: "(int \<times> bool) list"

text \<open>
  Calling a script function is the engine's business: \<open>duk_call\<close> is a parameter, from the
  function value, its arguments and the state to what it returns or throws and the state
  it leaves.
\<close>

type_synonym script = "jsval \<Rightarrow> jsval list \<Rightarrow> machine \<Rightarrow> duk_ret \<times> machine"

text \<open>Argument \<open>i\<close> of a native function; a missing argument is \<open>undefined\<close>.\<close>

definition arg :: "jsval list \<Rightarrow> nat \<Rightarrow> jsval" where
  "arg args i = (if i < length args then args ! i else JUndefined)"

definition is_callable :: "jsval \<Rightarrow> bool" where
  "is_callable v = (case v of JFunction _ \<Rightarrow> True | _ \<Rightarrow> False)"

text \<open>A number read as a C \<open>int\<close>: clamped to its range.\<close>

definition to_int :: "int \<Rightarrow> int" where
  "to_int n = max (- (2 ^ 31)) (min (2 ^ 31 - 1) n)"

text \<open>\<open>reinterpret_cast< int >( timer )\<close> and back.\<close>

definition timerId_of :: "TimerHandle \<Rightarrow> int" where
  "timerId_of timer = sint timer"

definition handle_of :: "int \<Rightarrow> TimerHandle" where
  "handle_of timerId = word_of_int timerId"

text \<open>
  \<open>duk_put_prop_index\<close> takes the index as an unsigned 32-bit number; \<open>duk_get_prop\<close>,
  \<open>duk_has_prop\<close> and \<open>duk_del_prop\<close> take the key that is on the value stack.
\<close>

definition uarridx :: "int \<Rightarrow> int" where
  "uarridx i = i mod 2 ^ 32"

definition get_prop :: "machine \<Rightarrow> jsval \<Rightarrow> jsval" where
  "get_prop m key =
     (case key of
        JNumber k \<Rightarrow> (case timerSlot m k of None \<Rightarrow> JUndefined | Some v \<Rightarrow> v)
      | _ \<Rightarrow> JUndefined)"

definition has_prop :: "machine \<Rightarrow> jsval \<Rightarrow> bool" where
  "has_prop m key = (case key of JNumber k \<Rightarrow> timerSlot m k \<noteq> None | _ \<Rightarrow> False)"

definition del_prop :: "jsval \<Rightarrow> machine \<Rightarrow> machine" where
  "del_prop key m =
     (case key of JNumber k \<Rightarrow> m\<lparr>timerSlot := (timerSlot m)(k := None)\<rparr> | _ \<Rightarrow> m)"

subsection \<open>The RTOS timers\<close>

text \<open>
  \<open>pdMS_TO_TICKS\<close>, with \<open>configTICK_RATE_HZ\<close> a parameter: unsigned 32-bit arithmetic.
\<close>

definition pdMS_TO_TICKS :: "32 word \<Rightarrow> int \<Rightarrow> 32 word" where
  "pdMS_TO_TICKS tick_rate_hz ms = (word_of_int ms * tick_rate_hz) div 1000"

text \<open>
  \<open>xTimerCreate\<close> returns the handle of the new timer, which the environment chooses
  (\<open>fresh\<close>), or \<open>NULL\<close> when it has no memory for one. The timer is dormant until started.
\<close>

definition xTimerCreate ::
  "TimerHandle \<Rightarrow> 32 word \<Rightarrow> bool \<Rightarrow> bool \<Rightarrow> machine \<Rightarrow> TimerHandle \<times> machine" where
  "xTimerCreate fresh ticks reload cb m =
     (if fresh = 0 then (0, m)
      else (fresh, m\<lparr>timers := (timers m)(fresh \<mapsto>
              \<lparr>period_ticks = ticks, auto_reload = reload, callback_AutoReload = cb,
               active = False\<rparr>)\<rparr>))"

text \<open>
  \<open>xTimerStart\<close> and \<open>xTimerDelete\<close> assert that the handle is not \<open>NULL\<close>, and a handle
  that is not a live timer is not theirs to use: \<open>None\<close> in both cases.
\<close>

definition xTimerStart :: "TimerHandle \<Rightarrow> machine \<Rightarrow> machine option" where
  "xTimerStart t m =
     (if t = 0 then None
      else
        (case timers m t of
           None \<Rightarrow> None
         | Some tm \<Rightarrow> Some (m\<lparr>timers := (timers m)(t \<mapsto> tm\<lparr>active := True\<rparr>)\<rparr>)))"

definition xTimerDelete :: "TimerHandle \<Rightarrow> machine \<Rightarrow> machine option" where
  "xTimerDelete t m =
     (if t = 0 then None
      else
        (case timers m t of
           None \<Rightarrow> None
         | Some _ \<Rightarrow> Some (m\<lparr>timers := (timers m)(t := None)\<rparr>)))"


subsection \<open>The bridge\<close>

definition createTimer ::
  "32 word \<Rightarrow> TimerHandle \<Rightarrow> int \<Rightarrow> bool \<Rightarrow> machine \<Rightarrow> (string + TimerHandle) \<times> machine" where
  "createTimer tick_rate_hz fresh period oneShot m =
     (if period = 0 then (Inl ''Timers with no period are not implemented yet'', m)
      else if oneShot then
        (case xTimerCreate fresh (pdMS_TO_TICKS tick_rate_hz period) (\<not> oneShot) False m of
           (t, m1) \<Rightarrow> (Inr t, m1))
      else
        (case xTimerCreate fresh (pdMS_TO_TICKS tick_rate_hz period) (\<not> oneShot) True m of
           (t, m1) \<Rightarrow> (Inr t, m1)))"


definition dukCreateTimer ::
  "32 word \<Rightarrow> TimerHandle \<Rightarrow> jsval list \<Rightarrow> machine \<Rightarrow> duk_ret \<times> machine" where
  "dukCreateTimer tick_rate_hz fresh args m =
     (case arg args 0 of
        JNumber n \<Rightarrow>
          (case arg args 1 of
             JBool oneShot \<Rightarrow>
               if \<not> is_callable (arg args 2) then (Throws TypeError, m)
               else
                 (case createTimer tick_rate_hz fresh (to_int n) oneShot m of
                    (Inl msg, m1) \<Rightarrow> (Throws (RuntimeError msg), m1)
                  | (Inr t, m1) \<Rightarrow>
                      (case xTimerStart t m1 of
                         None \<Rightarrow> (Fatal, m1)
                       | Some m2 \<Rightarrow>
                           (let timerId = timerId_of t
                            in (Returns (JNumber timerId),
                                m2\<lparr>timerSlot := (timerSlot m2)(uarridx timerId \<mapsto> arg args 2)\<rparr>))))
           | _ \<Rightarrow> (Throws TypeError, m))
      | _ \<Rightarrow> (Throws TypeError, m))"

definition dukInvokeTimer :: "script \<Rightarrow> jsval list \<Rightarrow> machine \<Rightarrow> duk_ret \<times> machine" where
  "dukInvokeTimer duk_call args m =
     (let callback = get_prop m (arg args 0)
      in if \<not> is_callable callback then (Throws TypeError, m)
         else
           (case duk_call callback [] m of
              (Returns _, m1) \<Rightarrow>
                (case arg args 1 of
                   JBool cleanup \<Rightarrow>
                     (Returns JUndefined, if cleanup then del_prop (arg args 0) m1 else m1)
                 | _ \<Rightarrow> (Throws TypeError, m1))
            | (r, m1) \<Rightarrow> (r, m1)))"

definition dukDeleteTimer :: "jsval list \<Rightarrow> machine \<Rightarrow> duk_ret \<times> machine" where
  "dukDeleteTimer args m =
     (case arg args 0 of
        JNumber n \<Rightarrow>
          (let timerId = to_int n
           in if has_prop m (arg args 0) then
                (let m1 = del_prop (arg args 0) m
                 in case xTimerDelete (handle_of timerId) m1 of
                      None \<Rightarrow> (Fatal, m1)
                    | Some m2 \<Rightarrow> (Returns JUndefined, m2))
              else (Returns JUndefined, m))
      | _ \<Rightarrow> (Throws TypeError, m))"

subsection \<open>Firing and draining\<close>


text \<open>
  Modelled from the spec: the scripting loop's step that runs the oldest scheduled request
  (see \<open>schedule\<close>): it calls \<open>dukInvokeTimer\<close> with the two values the request carries.
\<close>

definition drain :: "script \<Rightarrow> machine \<Rightarrow> duk_ret \<times> machine" where
  "drain duk_call m =
     (case scheduled m of
        [] \<Rightarrow> (Returns JUndefined, m)
      | (timerId, cleanup) # rest \<Rightarrow>
          dukInvokeTimer duk_call [JNumber timerId, JBool cleanup] (m\<lparr>scheduled := rest\<rparr>))"


text \<open>A script whose functions return at once and touch nothing, and an empty machine.\<close>

definition idle_script :: script where
  "idle_script f args m = (Returns JUndefined, m)"

definition demo_machine :: machine where
  "demo_machine = \<lparr>timers = Map.empty, timerSlot = Map.empty, scheduled = []\<rparr>"



section \<open>Properties\<close>

lemma CHUNK_SIZE_multiple_of_3: "CHUNK_SIZE mod 3 = 0"
  by (simp add: CHUNK_SIZE_def)

subsection \<open>What the calls leave unchanged\<close>

lemma fsPath_prefix: "storagePrefix s' = storagePrefix s \<Longrightarrow> fsPath s' f = fsPath s f"
  by (simp add: fsPath_def)

lemma workingFilename_prefix:
  "storagePrefix s' = storagePrefix s \<Longrightarrow> workingFilename s' = workingFilename s"
  by (simp add: workingFilename_def)

lemma sys_close_frame:
  "sys_close fd s = (r, s1) \<Longrightarrow>
     sink s1 = sink s \<and> files s1 = files s \<and> storagePrefix s1 = storagePrefix s
     \<and> workingFd s1 = workingFd s \<and> faults s1 = faults s"
  by (auto simp: sys_close_def split: option.splits)

lemma ensurePath_frame:
  assumes "ensurePath p s = (ok, s1)"
  shows "sink s1 = sink s \<and> files s1 = files s \<and> storagePrefix s1 = storagePrefix s
       \<and> workingFd s1 = workingFd s"
proof -
  obtain f s0 where tf: "take_fault s = (f, s0)"
    by (cases "take_fault s")
  from assms tf take_fault_frame [OF tf] show ?thesis
    by (auto simp: ensurePath_def split: fault.splits)
qed

lemma sys_remove_frame:
  assumes "sys_remove p s = (r, s1)"
  shows "sink s1 = sink s \<and> storagePrefix s1 = storagePrefix s \<and> workingFd s1 = workingFd s
       \<and> (files s1 = files s \<or> files s1 = (files s)(p := None))"
proof -
  obtain f s0 where tf: "take_fault s = (f, s0)"
    by (cases "take_fault s")
  from assms tf take_fault_frame [OF tf] show ?thesis
    by (auto simp: sys_remove_def split: fault.splits option.splits)
qed

lemma sys_open_RdOnly_frame:
  assumes "sys_open p RdOnly s = (fd, s1)"
  shows "sink s1 = sink s \<and> storagePrefix s1 = storagePrefix s \<and> workingFd s1 = workingFd s
       \<and> files s1 = files s"
proof -
  obtain f s0 where tf: "take_fault s = (f, s0)"
    by (cases "take_fault s")
  from assms tf take_fault_frame [OF tf] show ?thesis
    by (auto simp: sys_open_def alloc_fd_def Let_def split: fault.splits option.splits)
qed

lemma sys_rename_frame:
  assumes "sys_rename old new s = (r, s1)"
  shows "sink s1 = sink s \<and> storagePrefix s1 = storagePrefix s \<and> workingFd s1 = workingFd s
       \<and> (files s1 = files s \<or> files s1 = (files s)(old := None, new := files s old))"
proof -
  obtain f s0 where tf: "take_fault s = (f, s0)"
    by (cases "take_fault s")
  from assms tf take_fault_frame [OF tf] show ?thesis
    by (auto simp: sys_rename_def split: fault.splits option.splits)
qed

lemma sys_open_frame:
  assumes "sys_open p mode s = (fd, s1)"
  shows "sink s1 = sink s \<and> storagePrefix s1 = storagePrefix s \<and> workingFd s1 = workingFd s"
proof -
  obtain f s0 where tf: "take_fault s = (f, s0)"
    by (cases "take_fault s")
  from assms tf take_fault_frame [OF tf] show ?thesis
    by (auto simp: sys_open_def alloc_fd_def Let_def
        split: fault.splits option.splits open_mode.splits)
qed

lemma f_getfree_frame: "sink (snd (f_getfree s)) = sink s"
proof -
  obtain f s0 where tf: "take_fault s = (f, s0)"
    by (cases "take_fault s")
  from tf take_fault_frame [OF tf] show ?thesis
    by (auto simp: f_getfree_def split: fault.splits)
qed

lemma pending_sys_eq:
  "pending_sys fs =
     \<lparr>storagePrefix = ''/data'', finished = False, workingFd = 3, sink = [],
      files = [''/data/__tmp.txt'' \<mapsto> []],
      fds = [3 \<mapsto> \<lparr>of_path = ''/data/__tmp.txt'', of_pos = 0, of_write = True\<rparr>],
      next_fd = 4, errno = EIO, faults = fs,
      fat = \<lparr>n_fatent = 1002, csize = 1, free_clst = 500\<rparr>\<rparr>"
  by (simp add: pending_sys_def startFilePush_def demo_sys_def sys_open_def take_fault_def
      alloc_fd_def workingFilename_def Let_def)

subsection \<open>remove\<close>

text \<open>
  C7. \<open>doRemove\<close> emits \<open>"OK\n"\<close> after the deletion attempt whatever its result, and
  before it one error fragment exactly when \<open>remove\<close> returned a negative value. On a path
  that does not exist it changes no file and the output is an error fragment followed by
  \<open>"OK\n"\<close>. (\<open>doRemove\<close> has no assertion: it returns in every state.)
\<close>

theorem doRemove_reports:
  "sink (doRemove filename s) =
     sink s
     @ (if fst (sys_remove (fsPath s filename) s) < 0
        then [YError (strerror (errno (snd (sys_remove (fsPath s filename) s))))] else [])
     @ [YString ''OK\<newline>'']
   \<and> (files s (fsPath s filename) = None \<longrightarrow>
        files (doRemove filename s) = files s
        \<and> (\<exists>e. sink (doRemove filename s) = sink s @ [YError e, YString ''OK\<newline>'']))"
proof -
  obtain r s1 where rm: "sys_remove (fsPath s filename) s = (r, s1)"
    by (cases "sys_remove (fsPath s filename) s")
  obtain f s0 where tf: "take_fault s = (f, s0)"
    by (cases "take_fault s")
  note fr = take_fault_frame [OF tf]
  from rm tf fr have snk: "sink s1 = sink s"
    by (auto simp: sys_remove_def split: fault.splits option.splits)
  from rm tf fr have absent: "files s (fsPath s filename) = None \<Longrightarrow> r = - 1 \<and> files s1 = files s"
    by (auto simp: sys_remove_def split: fault.splits option.splits)
  from rm snk have out:
    "sink (doRemove filename s) =
       sink s @ (if r < 0 then [YError (strerror (errno s1))] else []) @ [YString ''OK\<newline>'']"
    and fs: "files (doRemove filename s) = files s1"
    by (simp_all add: doRemove_def Let_def yieldString_def yieldError_def)
  from out fs absent rm show ?thesis
    by auto
qed

theorem doRemove_reports_witness:
  "files demo_sys (fsPath demo_sys ''nofile'') = None
   \<and> sink (doRemove ''nofile'' demo_sys)
       = [YError ''No such file or directory'', YString ''OK\<newline>'']"
  using doRemove_reports [of "''nofile''" demo_sys]
  by (simp add: demo_sys_def fsPath_def sys_remove_def take_fault_def)

subsection \<open>addFileChunk\<close>

lemma sys_write_frame:
  assumes "sys_write fd buf s = (r, s1)"
  shows "sink s1 = sink s \<and> workingFd s1 = workingFd s \<and> storagePrefix s1 = storagePrefix s
       \<and> finished s1 = finished s \<and> dom (fds s1) = dom (fds s)"
proof -
  obtain f s0 where tf: "take_fault s = (f, s0)"
    by (cases "take_fault s")
  note fr = take_fault_frame [OF tf]
  from assms tf fr show ?thesis
    by (auto simp: sys_write_def Let_def split: fault.splits option.splits if_splits)
qed

text \<open>
  C6, as the code has it. With a pending handle, \<open>addFileChunk\<close> returns (no assertion
  fails), leaves the handle pending and the descriptors open as they were, and emits one
  error fragment exactly when \<open>write\<close> returned a negative count. A short write (fewer
  bytes written than requested, count not negative) emits nothing, as a complete one.
\<close>

theorem addFileChunk_reports:
  assumes "0 \<le> workingFd s"
  shows "\<exists>s'. addFileChunk buffer s = Returned s'
           \<and> workingFd s' = workingFd s \<and> dom (fds s') = dom (fds s)
           \<and> sink s' =
               sink s
               @ (if fst (sys_write (workingFd s) buffer s) < 0
                  then [YError (strerror (errno (snd (sys_write (workingFd s) buffer s))))]
                  else [])"
proof -
  obtain r s1 where w: "sys_write (workingFd s) buffer s = (r, s1)"
    by (cases "sys_write (workingFd s) buffer s")
  from sys_write_frame [OF w] assms w show ?thesis
    by (simp add: addFileChunk_def yieldError_def)
qed

lemma short_write_sys_eq:
  "short_write_sys =
     \<lparr>storagePrefix = ''/data'', finished = False, workingFd = 3, sink = [],
      files = [''/data/__tmp.txt'' \<mapsto> []],
      fds = [3 \<mapsto> \<lparr>of_path = ''/data/__tmp.txt'', of_pos = 0, of_write = True\<rparr>],
      next_fd = 4, errno = EIO, faults = [Short 1],
      fat = \<lparr>n_fatent = 1002, csize = 1, free_clst = 500\<rparr>\<rparr>"
  by (simp add: short_write_sys_def pending_sys_eq)

text \<open>
  C6 as stated fails: three bytes are passed, \<open>write\<close> takes one, and no error fragment
  is emitted.
\<close>

theorem addFileChunk_short_write_counterexample:
  "0 \<le> workingFd short_write_sys
   \<and> fst (sys_write (workingFd short_write_sys) [1, 2, 3] short_write_sys) = 1
   \<and> sink (state_of (addFileChunk [1, 2, 3] short_write_sys)) = sink short_write_sys
   \<and> files (state_of (addFileChunk [1, 2, 3] short_write_sys)) ''/data/__tmp.txt'' = Some [1]"
  by (simp add: short_write_sys_eq addFileChunk_def sys_write_def take_fault_def
      transfer_limit_def write_at_def Let_def)

theorem addFileChunk_reports_witness:
  "0 \<le> workingFd short_write_sys
   \<and> (\<exists>s'. addFileChunk [1, 2, 3] short_write_sys = Returned s'
          \<and> workingFd s' = 3 \<and> dom (fds s') = {3} \<and> sink s' = [])"
proof -
  have h: "0 \<le> workingFd short_write_sys"
    by (simp add: short_write_sys_eq)
  from addFileChunk_reports [OF h, of "[1, 2, 3]"] h show ?thesis
    by (simp add: short_write_sys_eq sys_write_def take_fault_def transfer_limit_def Let_def)
qed

subsection \<open>commitFilePush\<close>

text \<open>The steps of commit, one by one.\<close>

lemma commit_close_frame:
  "sink (commit_close s) = sink s \<and> files (commit_close s) = files s
   \<and> storagePrefix (commit_close s) = storagePrefix s"
proof -
  obtain r s1 where c: "sys_close (workingFd s) s = (r, s1)"
    by (cases "sys_close (workingFd s) s")
  from sys_close_frame [OF c] c show ?thesis
    by (simp add: commit_close_def)
qed

lemma commit_ensure_frame:
  "files (commit_ensure f s) = files s \<and> storagePrefix (commit_ensure f s) = storagePrefix s
   \<and> sink (commit_ensure f s) =
       sink s @ (if fst (ensurePath (fsPath s f) s) then []
                 else [YError (''Cannot create path '' @ fsPath s f @ '': ''
                               @ strerror (errno (snd (ensurePath (fsPath s f) s))))])"
proof -
  obtain ok s1 where e: "ensurePath (fsPath s f) s = (ok, s1)"
    by (cases "ensurePath (fsPath s f) s")
  from ensurePath_frame [OF e] e show ?thesis
    by (simp add: commit_ensure_def Let_def yieldError_def)
qed

lemma commit_remove_frame:
  "sink (commit_remove f s) = sink s \<and> storagePrefix (commit_remove f s) = storagePrefix s
   \<and> (files (commit_remove f s) = files s
        \<or> files (commit_remove f s) = (files s)(fsPath s f := None))"
proof -
  obtain r s1 where e: "sys_remove (fsPath s f) s = (r, s1)"
    by (cases "sys_remove (fsPath s f) s")
  from sys_remove_frame [OF e] e show ?thesis
    by (simp add: commit_remove_def)
qed

lemma commit_reopen_frame:
  "sink (state_of (commit_reopen s)) = sink s
   \<and> storagePrefix (state_of (commit_reopen s)) = storagePrefix s
   \<and> files (state_of (commit_reopen s)) = files s"
proof -
  obtain fd s1 where e: "sys_open (workingFilename s) RdOnly s = (fd, s1)"
    by (cases "sys_open (workingFilename s) RdOnly s")
  obtain r s2 where c: "sys_close fd s1 = (r, s2)"
    by (cases "sys_close fd s1")
  from sys_open_RdOnly_frame [OF e] sys_close_frame [OF c] e c show ?thesis
    by (simp add: commit_reopen_def)
qed

lemma commit_rename_frame:
  "storagePrefix (commit_rename f s) = storagePrefix s
   \<and> (files (commit_rename f s) = files s
        \<or> files (commit_rename f s)
           = (files s)(workingFilename s := None, fsPath s f := files s (workingFilename s)))
   \<and> sink (commit_rename f s) =
       sink s @ (if fst (sys_rename (workingFilename s) (fsPath s f) s) < 0
                 then [YError (''Cannot finalize push: ''
                        @ strerror (errno (snd (sys_rename (workingFilename s) (fsPath s f) s))))]
                 else [])"
proof -
  obtain r s1 where e: "sys_rename (workingFilename s) (fsPath s f) s = (r, s1)"
    by (cases "sys_rename (workingFilename s) (fsPath s f) s")
  from sys_rename_frame [OF e] e show ?thesis
    by (auto simp add: commit_rename_def yieldError_def)
qed

lemma commit_sink:
  assumes "commit_reopened filename s = Returned s4"
  shows "\<exists>s'. commitFilePush filename s = Returned s'
     \<and> sink s' =
         sink s
         @ (if fst (ensurePath (fsPath s filename) (commit_close s)) then []
            else [YError (''Cannot create path '' @ fsPath s filename @ '': ''
                   @ strerror (errno (snd (ensurePath (fsPath s filename) (commit_close s)))))])
         @ (if fst (sys_rename (workingFilename s) (fsPath s filename) s4) < 0
            then [YError (''Cannot finalize push: ''
                   @ strerror (errno (snd (sys_rename (workingFilename s) (fsPath s filename) s4))))]
            else [])
         @ [YString ''OK\<newline>'']"
proof -
  let ?s1 = "commit_close s"
  let ?s2 = "commit_ensure filename ?s1"
  let ?s3 = "commit_remove filename ?s2"
  let ?s5 = "commit_rename filename s4"
  have p1: "storagePrefix ?s1 = storagePrefix s" and k1: "sink ?s1 = sink s"
    using commit_close_frame [of s] by simp_all
  have p2: "storagePrefix ?s2 = storagePrefix s"
    using commit_ensure_frame [of filename ?s1] p1 by simp
  have k2: "sink ?s2 = sink s
         @ (if fst (ensurePath (fsPath s filename) ?s1) then []
            else [YError (''Cannot create path '' @ fsPath s filename @ '': ''
                   @ strerror (errno (snd (ensurePath (fsPath s filename) ?s1))))])"
    using commit_ensure_frame [of filename ?s1] k1 fsPath_prefix [OF p1, of filename]
    by simp
  have p3: "storagePrefix ?s3 = storagePrefix s" and k3: "sink ?s3 = sink ?s2"
    using commit_remove_frame [of filename ?s2] p2 by simp_all
  have "state_of (commit_reopen ?s3) = s4"
    using assms by simp
  with commit_reopen_frame [of ?s3] p3
  have p4: "storagePrefix s4 = storagePrefix s" and k4: "sink s4 = sink ?s3"
    by simp_all
  have k5: "sink ?s5 = sink s4
         @ (if fst (sys_rename (workingFilename s) (fsPath s filename) s4) < 0
            then [YError (''Cannot finalize push: ''
                   @ strerror (errno (snd (sys_rename (workingFilename s) (fsPath s filename) s4))))]
            else [])"
    using commit_rename_frame [of filename s4] fsPath_prefix [OF p4, of filename]
      workingFilename_prefix [OF p4]
    by simp
  have k6: "sink (yieldString ''OK\<newline>'' ?s5) = sink ?s5 @ [YString ''OK\<newline>'']"
    by (simp add: yieldString_def)
  have "commitFilePush filename s = Returned (yieldString ''OK\<newline>'' ?s5)"
    using assms by (simp add: commitFilePush_def)
  moreover have "sink (yieldString ''OK\<newline>'' ?s5) =
         sink s
         @ (if fst (ensurePath (fsPath s filename) (commit_close s)) then []
            else [YError (''Cannot create path '' @ fsPath s filename @ '': ''
                   @ strerror (errno (snd (ensurePath (fsPath s filename) (commit_close s)))))])
         @ (if fst (sys_rename (workingFilename s) (fsPath s filename) s4) < 0
            then [YError (''Cannot finalize push: ''
                   @ strerror (errno (snd (sys_rename (workingFilename s) (fsPath s filename) s4))))]
            else [])
         @ [YString ''OK\<newline>'']"
    unfolding k6 k5 k4 k3 k2 by simp
  ultimately show ?thesis
    by blast
qed

lemma commit_aborts:
  "commit_reopened filename s = Aborted a \<Longrightarrow> commitFilePush filename s = Aborted a"
  by (simp add: commitFilePush_def)

text \<open>
  C5, as the code has it. Whenever \<open>commitFilePush\<close> returns, what it has emitted is: an
  error fragment if the directory creation failed, then an error fragment if the rename
  failed, then \<open>"OK\n"\<close>, in every case. Error and \<open>"OK\n"\<close> are not exclusive.
\<close>

theorem commitFilePush_reports:
  assumes "commitFilePush filename s = Returned s'"
  shows "\<exists>s4. commit_reopened filename s = Returned s4
     \<and> sink s' =
         sink s
         @ (if fst (ensurePath (fsPath s filename) (commit_close s)) then []
            else [YError (''Cannot create path '' @ fsPath s filename @ '': ''
                   @ strerror (errno (snd (ensurePath (fsPath s filename) (commit_close s)))))])
         @ (if fst (sys_rename (workingFilename s) (fsPath s filename) s4) < 0
            then [YError (''Cannot finalize push: ''
                   @ strerror (errno (snd (sys_rename (workingFilename s) (fsPath s filename) s4))))]
            else [])
         @ [YString ''OK\<newline>'']"
proof (cases "commit_reopened filename s")
  case (Returned s4)
  from commit_sink [OF Returned] assms Returned show ?thesis
    by auto
next
  case (Aborted a)
  from commit_aborts [OF Aborted] assms show ?thesis
    by simp
qed

lemmas commit_eval =
  commitFilePush_def commit_close_def commit_ensure_def commit_remove_def commit_reopen_def
  commit_rename_def sys_close_def ensurePath_def sys_remove_def sys_open_def sys_rename_def
  take_fault_def alloc_fd_def fsPath_def workingFilename_def yieldError_def yieldString_def
  Let_def

text \<open>
  C5 as stated fails: the directory creation fails, an error fragment is emitted, and
  \<open>"OK\n"\<close> follows it.
\<close>

theorem commit_error_and_OK_counterexample:
  "sink (state_of (commitFilePush ''a.txt'' (pending_sys [Fail ENOSPC])))
     = [YError ''Cannot create path /data/a.txt: No space left on device'',
        YString ''OK\<newline>'']"
  by (simp add: pending_sys_eq commit_eval)

theorem commitFilePush_reports_witness:
  "(\<exists>s'. commitFilePush ''a.txt'' (pending_sys [NoFault, NoFault, NoFault, Fail EIO]) = Returned s'
      \<and> sink s' = [YError ''Cannot finalize push: I/O error'', YString ''OK\<newline>''])"
proof -
  obtain s' where r: "commitFilePush ''a.txt'' (pending_sys [NoFault, NoFault, NoFault, Fail EIO])
      = Returned s'"
    by (simp add: pending_sys_eq commit_eval)
  from commitFilePush_reports [OF r] r show ?thesis
    by (simp add: pending_sys_eq commit_eval)
qed

text \<open>
  C2. Whatever fails and wherever: in every state of the commit sequence before the
  rename (after the close, the directory creation, the removal and the re-open, an
  assertion failure included) the destination is absent or still holds the file it held
  when the commit began; in every state of the whole sequence it is absent, holds that
  prior file, or holds the complete working file as it was when the commit began, which
  only the rename can put there. The state \<open>commitFilePush\<close> ends in is the last of the
  sequence.
\<close>

theorem commit_never_partial:
  "(\<forall>t \<in> set (commit_states_before_rename filename s).
       files t (fsPath s filename) = None
       \<or> files t (fsPath s filename) = files s (fsPath s filename))
   \<and> (\<forall>t \<in> set (commit_states filename s).
       files t (fsPath s filename) = None
       \<or> files t (fsPath s filename) = files s (fsPath s filename)
       \<or> files t (fsPath s filename) = files s (workingFilename s))
   \<and> state_of (commitFilePush filename s) = last (commit_states filename s)"
proof -
  let ?dest = "fsPath s filename" and ?wf = "workingFilename s"
  define s1 where "s1 = commit_close s"
  define s2 where "s2 = commit_ensure filename s1"
  define s3 where "s3 = commit_remove filename s2"
  define s4 where "s4 = state_of (commit_reopen s3)"
  define s5 where "s5 = commit_rename filename s4"
  define s6 where "s6 = yieldString ''OK\<newline>'' s5"
  have f1: "files s1 = files s" and p1: "storagePrefix s1 = storagePrefix s"
    using commit_close_frame [of s] by (simp_all add: s1_def)
  have f2: "files s2 = files s" and p2: "storagePrefix s2 = storagePrefix s"
    using commit_ensure_frame [of filename s1] f1 p1 by (simp_all add: s2_def)
  have f3: "files s3 = files s \<or> files s3 = (files s)(?dest := None)"
    and p3: "storagePrefix s3 = storagePrefix s"
    using commit_remove_frame [of filename s2] f2 p2 fsPath_prefix [OF p2, of filename]
    by (simp_all add: s3_def)
  have f4: "files s4 = files s3" and p4: "storagePrefix s4 = storagePrefix s"
    using commit_reopen_frame [of s3] p3 by (simp_all add: s4_def)
  have f5: "files s5 = files s4 \<or> files s5 = (files s4)(?wf := None, ?dest := files s4 ?wf)"
    using commit_rename_frame [of filename s4] fsPath_prefix [OF p4, of filename]
      workingFilename_prefix [OF p4]
    by (simp add: s5_def)
  have f6: "files s6 = files s5"
    by (simp add: s6_def yieldString_def)
  have d3: "files s3 ?dest = None \<or> files s3 ?dest = files s ?dest"
    using f3 by auto
  have w3: "files s3 ?wf = None \<or> files s3 ?wf = files s ?wf"
    using f3 by auto
  have d5: "files s5 ?dest = None \<or> files s5 ?dest = files s ?dest
            \<or> files s5 ?dest = files s ?wf"
    using f5 f4 d3 w3 by auto
  have before: "commit_states_before_rename filename s = [s, s1, s2, s3, s4]"
    by (simp add: commit_states_before_rename_def Let_def s1_def s2_def s3_def s4_def)
  have after: "commit_states_after_rename filename s
                 = (case commit_reopen s3 of Aborted _ \<Rightarrow> [] | Returned _ \<Rightarrow> [s5, s6])"
    by (simp add: commit_states_after_rename_def s1_def s2_def s3_def s4_def s5_def s6_def
        split: outcome.splits)
  have A: "\<forall>t \<in> set (commit_states_before_rename filename s).
       files t ?dest = None \<or> files t ?dest = files s ?dest"
    using before f1 f2 d3 f4 by auto
  have B: "\<forall>t \<in> set (commit_states filename s).
       files t ?dest = None \<or> files t ?dest = files s ?dest \<or> files t ?dest = files s ?wf"
  proof
    fix t assume "t \<in> set (commit_states filename s)"
    then consider "t \<in> set (commit_states_before_rename filename s)" | "t = s5" | "t = s6"
      by (auto simp: commit_states_def after split: outcome.splits)
    then show "files t ?dest = None \<or> files t ?dest = files s ?dest
                \<or> files t ?dest = files s ?wf"
      using A d5 f6 by cases auto
  qed
  have C: "state_of (commitFilePush filename s) = last (commit_states filename s)"
    by (cases "commit_reopen s3")
      (simp_all add: commitFilePush_def commit_states_def before after
        s1_def s2_def s3_def s4_def s5_def s6_def)
  from A B C show ?thesis
    by (intro conjI)
qed

lemma committing_sys_eq:
  "committing_sys =
     \<lparr>storagePrefix = ''/data'', finished = False, workingFd = 3, sink = [],
      files = [''/data/__tmp.txt'' \<mapsto> [1, 2, 3], ''/data/a.txt'' \<mapsto> [9]],
      fds = [3 \<mapsto> \<lparr>of_path = ''/data/__tmp.txt'', of_pos = 0, of_write = True\<rparr>],
      next_fd = 4, errno = EIO, faults = [NoFault, NoFault, NoFault, Fail EIO],
      fat = \<lparr>n_fatent = 1002, csize = 1, free_clst = 500\<rparr>\<rparr>"
  by (simp add: committing_sys_def pending_sys_eq)

theorem commit_never_partial_witness:
  "files committing_sys ''/data/a.txt'' = Some [9]
   \<and> state_of (commitFilePush ''a.txt'' committing_sys)
       \<in> set (commit_states ''a.txt'' committing_sys)
   \<and> files (state_of (commitFilePush ''a.txt'' committing_sys)) ''/data/a.txt'' = None
   \<and> files (state_of (commitFilePush ''a.txt'' committing_sys)) ''/data/__tmp.txt''
       = Some [1, 2, 3]"
proof -
  have ne: "commit_states ''a.txt'' committing_sys \<noteq> []"
    by (simp add: commit_states_def commit_states_before_rename_def Let_def)
  have ev: "files (state_of (commitFilePush ''a.txt'' committing_sys))
              = [''/data/__tmp.txt'' \<mapsto> [1, 2, 3]]"
    by (simp add: committing_sys_eq commit_eval)
  from commit_never_partial [of "''a.txt''" committing_sys] ne ev show ?thesis
    by (simp add: committing_sys_eq)
qed


subsection \<open>The reporting policy\<close>

lemma startFilePush_open:
  "(fst (sys_open (workingFilename s) WrCreatTrunc (start_closed s)) < 0 \<longrightarrow>
      sink (startFilePush s) =
        sink s @ [YError (strerror (errno (snd (sys_open (workingFilename s) WrCreatTrunc
                                                   (start_closed s)))))]
      \<and> workingFd (startFilePush s) < 0)
   \<and> (0 \<le> fst (sys_open (workingFilename s) WrCreatTrunc (start_closed s)) \<longrightarrow>
      sink (startFilePush s) = sink s
      \<and> workingFd (startFilePush s)
          = fst (sys_open (workingFilename s) WrCreatTrunc (start_closed s)))"
proof -
  define s1 where "s1 = start_closed s"
  obtain r c where c: "sys_close (workingFd s) s = (r, c)"
    by (cases "sys_close (workingFd s) s")
  have k1: "sink s1 = sink s" and p1: "storagePrefix s1 = storagePrefix s"
    unfolding s1_def using sys_close_frame [OF c] c by simp_all
  have w1: "workingFilename s1 = workingFilename s"
    by (rule workingFilename_prefix [OF p1])
  obtain fd s2 where o: "sys_open (workingFilename s) WrCreatTrunc s1 = (fd, s2)"
    by (cases "sys_open (workingFilename s) WrCreatTrunc s1")
  from sys_open_frame [OF o] k1 have k2: "sink s2 = sink s"
    by simp
  have "startFilePush s =
          (if fd < 0 then yieldError (strerror (errno s2)) (s2\<lparr>workingFd := fd\<rparr>)
           else s2\<lparr>workingFd := fd\<rparr>)"
    unfolding startFilePush_def s1_def [symmetric] Let_def w1 o by simp
  with k2 o show ?thesis
    unfolding s1_def [symmetric] by (simp add: yieldError_def)
qed

lemma addFileChunk_sink:
  assumes "0 \<le> workingFd s"
  shows "\<exists>s'. addFileChunk buffer s = Returned s'
           \<and> sink s' =
               sink s
               @ (if fst (sys_write (workingFd s) buffer s) < 0
                  then [YError (strerror (errno (snd (sys_write (workingFd s) buffer s))))]
                  else [])"
proof -
  obtain r s1 where w: "sys_write (workingFd s) buffer s = (r, s1)"
    by (cases "sys_write (workingFd s) buffer s")
  from sys_write_frame [OF w] assms w show ?thesis
    by (simp add: addFileChunk_def yieldError_def)
qed

lemma addFileChunk_no_handle: "workingFd s < 0 \<Longrightarrow> addFileChunk buffer s = Aborted s"
  by (simp add: addFileChunk_def)

lemma doPull_open_fails:
  assumes "fst (sys_open (fsPath s filename) RdOnly s) < 0"
  shows "\<exists>s'. doPull filename s = Returned s' \<and> sink s' = sink s @ [YError (strerror (errno s'))]"
proof -
  obtain fd s1 where o: "sys_open (fsPath s filename) RdOnly s = (fd, s1)"
    by (cases "sys_open (fsPath s filename) RdOnly s")
  from sys_open_frame [OF o] o assms show ?thesis
    by (simp add: doPull_def Let_def yieldError_def)
qed

lemma doRemove_sink:
  "sink (doRemove filename s) =
     sink s
     @ (if fst (sys_remove (fsPath s filename) s) < 0
        then [YError (strerror (errno (snd (sys_remove (fsPath s filename) s))))] else [])
     @ [YString ''OK\<newline>'']"
proof -
  obtain r s1 where rm: "sys_remove (fsPath s filename) s = (r, s1)"
    by (cases "sys_remove (fsPath s filename) s")
  from sys_remove_frame [OF rm] rm show ?thesis
    by (simp add: doRemove_def Let_def yieldString_def yieldError_def)
qed

lemma doStats_fails:
  assumes "fst (f_getfree s) \<noteq> 0"
  shows "sink (doStats wl_sector_size s) = sink s @ [YError ''Cannot determine free space'']"
proof -
  obtain r s1 where g: "f_getfree s = (r, s1)"
    by (cases "f_getfree s")
  from f_getfree_frame [of s] g assms show ?thesis
    by (simp add: doStats_def yieldError_def)
qed

lemma commit_reopen_cases:
  "(fst (sys_open (workingFilename s) RdOnly s) < 0 \<longrightarrow> (\<exists>a. commit_reopen s = Aborted a))
   \<and> (0 \<le> fst (sys_open (workingFilename s) RdOnly s) \<longrightarrow> (\<exists>s4. commit_reopen s = Returned s4))"
  by (cases "sys_open (workingFilename s) RdOnly s") (simp add: commit_reopen_def)

lemma commit_removed_frame:
  "storagePrefix (commit_removed filename s) = storagePrefix s
   \<and> sink (commit_removed filename s) =
         sink s
         @ (if fst (ensurePath (fsPath s filename) (commit_close s)) then []
            else [YError (''Cannot create path '' @ fsPath s filename @ '': ''
                   @ strerror (errno (snd (ensurePath (fsPath s filename) (commit_close s)))))])"
proof -
  let ?s1 = "commit_close s"
  let ?s2 = "commit_ensure filename ?s1"
  have p1: "storagePrefix ?s1 = storagePrefix s" and k1: "sink ?s1 = sink s"
    using commit_close_frame [of s] by simp_all
  have p2: "storagePrefix ?s2 = storagePrefix s"
    using commit_ensure_frame [of filename ?s1] p1 by simp
  have k2: "sink ?s2 = sink s
         @ (if fst (ensurePath (fsPath s filename) ?s1) then []
            else [YError (''Cannot create path '' @ fsPath s filename @ '': ''
                   @ strerror (errno (snd (ensurePath (fsPath s filename) ?s1))))])"
    using commit_ensure_frame [of filename ?s1] k1 fsPath_prefix [OF p1, of filename]
    by simp
  show ?thesis
    using commit_remove_frame [of filename ?s2] p2 k2 by simp
qed

lemma commit_reopen_fails:
  assumes "fst (sys_open (workingFilename s) RdOnly (commit_removed filename s)) < 0"
  shows "\<exists>a. commitFilePush filename s = Aborted a
     \<and> sink a =
         sink s
         @ (if fst (ensurePath (fsPath s filename) (commit_close s)) then []
            else [YError (''Cannot create path '' @ fsPath s filename @ '': ''
                   @ strerror (errno (snd (ensurePath (fsPath s filename) (commit_close s)))))])"
proof -
  define s3 where "s3 = commit_removed filename s"
  have p: "storagePrefix s3 = storagePrefix s"
    and k: "sink s3 = sink s
         @ (if fst (ensurePath (fsPath s filename) (commit_close s)) then []
            else [YError (''Cannot create path '' @ fsPath s filename @ '': ''
                   @ strerror (errno (snd (ensurePath (fsPath s filename) (commit_close s)))))])"
    unfolding s3_def using commit_removed_frame [of filename s] by blast+
  have "fst (sys_open (workingFilename s3) RdOnly s3) < 0"
    unfolding workingFilename_prefix [OF p] using assms by (simp only: s3_def)
  with commit_reopen_cases [of s3] obtain a where a: "commit_reopen s3 = Aborted a"
    by blast
  from commit_reopen_frame [of s3] have "sink (state_of (commit_reopen s3)) = sink s3"
    by blast
  with a have "sink a = sink s3"
    by simp
  moreover from a have "commitFilePush filename s = Aborted a"
    by (simp add: commitFilePush_def s3_def)
  ultimately show ?thesis
    unfolding k by blast
qed

lemma commit_reopen_succeeds:
  assumes "0 \<le> fst (sys_open (workingFilename s) RdOnly (commit_removed filename s))"
  shows "\<exists>s'. commitFilePush filename s = Returned s'
     \<and> sink s' =
         sink s
         @ (if fst (ensurePath (fsPath s filename) (commit_close s)) then []
            else [YError (''Cannot create path '' @ fsPath s filename @ '': ''
                   @ strerror (errno (snd (ensurePath (fsPath s filename) (commit_close s)))))])
         @ (if fst (sys_rename (workingFilename s) (fsPath s filename)
                      (state_of (commit_reopened filename s))) < 0
            then [YError (''Cannot finalize push: ''
                   @ strerror (errno (snd (sys_rename (workingFilename s) (fsPath s filename)
                                             (state_of (commit_reopened filename s))))))]
            else [])
         @ [YString ''OK\<newline>'']"
proof -
  define s3 where "s3 = commit_removed filename s"
  have p: "storagePrefix s3 = storagePrefix s"
    unfolding s3_def using commit_removed_frame [of filename s] by blast
  have "0 \<le> fst (sys_open (workingFilename s3) RdOnly s3)"
    unfolding workingFilename_prefix [OF p] using assms by (simp only: s3_def)
  with commit_reopen_cases [of s3] obtain s4 where "commit_reopen s3 = Returned s4"
    by blast
  then have r: "commit_reopened filename s = Returned s4"
    by (simp add: s3_def)
  then have eq: "state_of (commit_reopened filename s) = s4"
    by simp
  show ?thesis
    unfolding eq by (rule commit_sink [OF r])
qed

text \<open>
  C4, as the code has it. A failed \<open>open\<close> (in \<open>startFilePush\<close> and in \<open>doPull\<close>), a
  failed \<open>write\<close> (in \<open>addFileChunk\<close> with a pending handle), a failed \<open>remove\<close>, a failed
  directory creation or \<open>rename\<close> (in \<open>commitFilePush\<close>) and a failed capacity query are
  each reported as one error fragment, and the operation returns. Each condition is the
  result of the call itself: for \<open>startFilePush\<close>, when its \<open>open\<close> fails the sink gets the
  one fragment with the text of \<open>errno\<close> and no handle is pending, and when it succeeds
  nothing is emitted and the descriptor is the pending handle. The exceptions:
  \<open>doRemove\<close> and \<open>commitFilePush\<close> emit \<open>"OK\n"\<close> after their error fragments;
  \<open>addFileChunk\<close> without a pending handle stops on its assertion; and \<open>commitFilePush\<close>
  stops on its assertion, with no fragment for it, when the re-open of the working file
  fails. A failed \<open>read\<close> in the loop of \<open>doPull\<close> is not part of the statement.
\<close>

theorem failures_are_reported:
  "(fst (sys_open (workingFilename s) WrCreatTrunc (start_closed s)) < 0 \<longrightarrow>
      sink (startFilePush s) =
        sink s @ [YError (strerror (errno (snd (sys_open (workingFilename s) WrCreatTrunc
                                                   (start_closed s)))))]
      \<and> workingFd (startFilePush s) < 0)
   \<and> (0 \<le> fst (sys_open (workingFilename s) WrCreatTrunc (start_closed s)) \<longrightarrow>
      sink (startFilePush s) = sink s
      \<and> workingFd (startFilePush s)
          = fst (sys_open (workingFilename s) WrCreatTrunc (start_closed s)))
   \<and> (0 \<le> workingFd s \<longrightarrow>
        (\<exists>s'. addFileChunk buffer s = Returned s'
           \<and> sink s' =
               sink s
               @ (if fst (sys_write (workingFd s) buffer s) < 0
                  then [YError (strerror (errno (snd (sys_write (workingFd s) buffer s))))]
                  else [])))
   \<and> (workingFd s < 0 \<longrightarrow> addFileChunk buffer s = Aborted s)
   \<and> (fst (sys_open (fsPath s filename) RdOnly s) < 0 \<longrightarrow>
        (\<exists>s'. doPull filename s = Returned s'
           \<and> sink s' = sink s @ [YError (strerror (errno s'))]))
   \<and> sink (doRemove filename s) =
       sink s
       @ (if fst (sys_remove (fsPath s filename) s) < 0
          then [YError (strerror (errno (snd (sys_remove (fsPath s filename) s))))] else [])
       @ [YString ''OK\<newline>'']
   \<and> (0 \<le> fst (sys_open (workingFilename s) RdOnly (commit_removed filename s)) \<longrightarrow>
        (\<exists>s'. commitFilePush filename s = Returned s'
           \<and> sink s' =
               sink s
               @ (if fst (ensurePath (fsPath s filename) (commit_close s)) then []
                  else [YError (''Cannot create path '' @ fsPath s filename @ '': ''
                         @ strerror (errno (snd (ensurePath (fsPath s filename) (commit_close s)))))])
               @ (if fst (sys_rename (workingFilename s) (fsPath s filename)
                            (state_of (commit_reopened filename s))) < 0
                  then [YError (''Cannot finalize push: ''
                         @ strerror (errno (snd (sys_rename (workingFilename s) (fsPath s filename)
                                                   (state_of (commit_reopened filename s))))))]
                  else [])
               @ [YString ''OK\<newline>'']))
   \<and> (fst (sys_open (workingFilename s) RdOnly (commit_removed filename s)) < 0 \<longrightarrow>
        (\<exists>a. commitFilePush filename s = Aborted a
           \<and> sink a =
               sink s
               @ (if fst (ensurePath (fsPath s filename) (commit_close s)) then []
                  else [YError (''Cannot create path '' @ fsPath s filename @ '': ''
                         @ strerror (errno (snd (ensurePath (fsPath s filename)
                                                   (commit_close s)))))])))
   \<and> (fst (f_getfree s) \<noteq> 0 \<longrightarrow>
        sink (doStats wl_sector_size s) = sink s @ [YError ''Cannot determine free space''])"
proof -
  note a = startFilePush_open [of s]
  have 1: "fst (sys_open (workingFilename s) WrCreatTrunc (start_closed s)) < 0 \<Longrightarrow>
      sink (startFilePush s) =
        sink s @ [YError (strerror (errno (snd (sys_open (workingFilename s) WrCreatTrunc
                                                   (start_closed s)))))]"
    and 2: "fst (sys_open (workingFilename s) WrCreatTrunc (start_closed s)) < 0 \<Longrightarrow>
      workingFd (startFilePush s) < 0"
    and 3: "0 \<le> fst (sys_open (workingFilename s) WrCreatTrunc (start_closed s)) \<Longrightarrow>
      sink (startFilePush s) = sink s"
    and 4: "0 \<le> fst (sys_open (workingFilename s) WrCreatTrunc (start_closed s)) \<Longrightarrow>
      workingFd (startFilePush s)
          = fst (sys_open (workingFilename s) WrCreatTrunc (start_closed s))"
    using a by blast+
  from 1 2 3 4 addFileChunk_sink [of s buffer]
    addFileChunk_no_handle [of s buffer] doPull_open_fails [of s filename]
    doRemove_sink [of filename s] commit_reopen_succeeds [of s filename]
    commit_reopen_fails [of s filename] doStats_fails [of s wl_sector_size]
  show ?thesis
    by (intro conjI impI) assumption+
qed

text \<open>
  C4 as stated fails: a commit with no working file on the volume (no push was started)
  fails the assertion on the re-open and reports nothing.
\<close>

theorem commit_without_working_file_counterexample:
  "commitFilePush ''a.txt'' demo_sys = Aborted (demo_sys\<lparr>errno := ENOENT\<rparr>)"
  by (simp add: demo_sys_def commit_eval)

theorem failures_are_reported_witness:
  "fst (sys_open (workingFilename (demo_sys\<lparr>faults := [Fail EACCES]\<rparr>)) WrCreatTrunc
          (start_closed (demo_sys\<lparr>faults := [Fail EACCES]\<rparr>))) < 0
   \<and> sink (startFilePush (demo_sys\<lparr>faults := [Fail EACCES]\<rparr>)) = [YError ''Permission denied'']
   \<and> workingFd (startFilePush (demo_sys\<lparr>faults := [Fail EACCES]\<rparr>)) < 0
   \<and> 0 \<le> fst (sys_open (workingFilename demo_sys) WrCreatTrunc (start_closed demo_sys))
   \<and> sink (startFilePush demo_sys) = []
   \<and> workingFd (startFilePush demo_sys) = 3
   \<and> 0 \<le> workingFd (pending_sys [Fail ENOSPC])
   \<and> (\<exists>s'. addFileChunk [1, 2, 3] (pending_sys [Fail ENOSPC]) = Returned s'
          \<and> sink s' = [YError ''No space left on device''])
   \<and> fst (sys_open (fsPath demo_sys ''nofile'') RdOnly demo_sys) < 0
   \<and> (\<exists>s'. doPull ''nofile'' demo_sys = Returned s'
          \<and> sink s' = [YError ''No such file or directory''])
   \<and> (\<exists>s'. commitFilePush ''a.txt'' (pending_sys [Fail ENOMEM, NoFault, NoFault, Fail EIO])
             = Returned s'
          \<and> sink s' = [YError ''Cannot create path /data/a.txt: Not enough space'',
                        YError ''Cannot finalize push: I/O error'', YString ''OK\<newline>''])
   \<and> fst (f_getfree (demo_sys\<lparr>faults := [Fail EIO]\<rparr>)) \<noteq> 0
   \<and> sink (doStats 4096 (demo_sys\<lparr>faults := [Fail EIO]\<rparr>))
       = [YError ''Cannot determine free space'']"
proof -
  note t = failures_are_reported
  have h1: "fst (sys_open (workingFilename (demo_sys\<lparr>faults := [Fail EACCES]\<rparr>)) WrCreatTrunc
          (start_closed (demo_sys\<lparr>faults := [Fail EACCES]\<rparr>))) < 0"
    by (simp add: demo_sys_def sys_open_def take_fault_def)
  have 1: "sink (startFilePush (demo_sys\<lparr>faults := [Fail EACCES]\<rparr>)) = [YError ''Permission denied'']
      \<and> workingFd (startFilePush (demo_sys\<lparr>faults := [Fail EACCES]\<rparr>)) < 0"
    using t [of "demo_sys\<lparr>faults := [Fail EACCES]\<rparr>"] h1
    by (simp add: demo_sys_def sys_open_def take_fault_def)
  have h0: "0 \<le> fst (sys_open (workingFilename demo_sys) WrCreatTrunc (start_closed demo_sys))"
    by (simp add: demo_sys_def sys_open_def take_fault_def alloc_fd_def)
  have 0: "sink (startFilePush demo_sys) = [] \<and> workingFd (startFilePush demo_sys) = 3"
    using t [of demo_sys] h0
    by (simp add: demo_sys_def sys_open_def take_fault_def alloc_fd_def)
  have h2: "0 \<le> workingFd (pending_sys [Fail ENOSPC])"
    by (simp add: pending_sys_eq)
  have 2: "\<exists>s'. addFileChunk [1, 2, 3] (pending_sys [Fail ENOSPC]) = Returned s'
          \<and> sink s' = [YError ''No space left on device'']"
    using t [of "pending_sys [Fail ENOSPC]" "[1, 2, 3]"] h2
    by (simp add: pending_sys_eq sys_write_def take_fault_def)
  have h3: "fst (sys_open (fsPath demo_sys ''nofile'') RdOnly demo_sys) < 0"
    by (simp add: demo_sys_def fsPath_def sys_open_def take_fault_def)
  have 3: "\<exists>s'. doPull ''nofile'' demo_sys = Returned s'
          \<and> sink s' = [YError ''No such file or directory'']"
    using t [of demo_sys _ "''nofile''"] h3
    by (auto simp add: demo_sys_def fsPath_def sys_open_def take_fault_def doPull_def
        yieldError_def)
  have 4: "\<exists>s'. commitFilePush ''a.txt'' (pending_sys [Fail ENOMEM, NoFault, NoFault, Fail EIO])
             = Returned s'
          \<and> sink s' = [YError ''Cannot create path /data/a.txt: Not enough space'',
                        YError ''Cannot finalize push: I/O error'', YString ''OK\<newline>'']"
    using t [of "pending_sys [Fail ENOMEM, NoFault, NoFault, Fail EIO]" _ "''a.txt''"]
    by (simp add: pending_sys_eq commit_eval)
  have h5: "fst (f_getfree (demo_sys\<lparr>faults := [Fail EIO]\<rparr>)) \<noteq> 0"
    by (simp add: demo_sys_def f_getfree_def take_fault_def)
  have 5: "sink (doStats 4096 (demo_sys\<lparr>faults := [Fail EIO]\<rparr>))
       = [YError ''Cannot determine free space'']"
    using t [of "demo_sys\<lparr>faults := [Fail EIO]\<rparr>" _ _ 4096] h5
    by (simp add: demo_sys_def)
  from 1 have f1: "sink (startFilePush (demo_sys\<lparr>faults := [Fail EACCES]\<rparr>))
                     = [YError ''Permission denied'']"
    and f2: "workingFd (startFilePush (demo_sys\<lparr>faults := [Fail EACCES]\<rparr>)) < 0"
    by blast+
  from 0 have g1: "sink (startFilePush demo_sys) = []"
    and g2: "workingFd (startFilePush demo_sys) = 3"
    by blast+
  from h1 f1 f2 h0 g1 g2 h2 2 h3 3 4 h5 5 show ?thesis
    by (intro conjI)
qed

text \<open>
  For the record, the loop of \<open>doPull\<close> on a failed \<open>read\<close>: the count \<open>-1\<close> goes to the
  encoder as a length, the encoder refuses, and the assertion on its result fails.
\<close>

lemma doPull_failed_read_aborts:
  "doPull ''__tmp.txt'' (pending_sys [NoFault, Fail EIO])
     = Aborted ((pending_sys [])\<lparr>errno := EIO, next_fd := 5,
         fds := (fds (pending_sys []))(4 \<mapsto> \<lparr>of_path = ''/data/__tmp.txt'', of_pos = 0,
                                             of_write = False\<rparr>)\<rparr>)"
  apply (simp add: pending_sys_eq doPull_def fsPath_def sys_open_def take_fault_def alloc_fd_def)
  apply (subst pull_loop.simps)
  apply (simp add: sys_read_def take_fault_def encode_refuses_failed_read pending_sys_eq Let_def)
  done

subsection \<open>Base64\<close>

lemma m63: "(0x3F::byte) = mask 6" and m3: "(3::byte) = mask 2" and m15: "(15::byte) = mask 4"
  by (simp_all add: mask_eq_exp_minus_1)

lemma byte_eqI:
  fixes a b :: byte
  assumes "\<And>n. n \<in> {0, 1, 2, 3, 4, 5, 6, 7} \<Longrightarrow> bit a n = bit b n"
  shows "a = b"
proof (rule bit_eqI)
  fix n
  assume "possible_bit TYPE(byte) n"
  then have "n < 8" by (simp add: possible_bit_def)
  then have "n \<in> {0, 1, 2, 3, 4, 5, 6, 7}" by auto
  then show "bit a n = bit b n" by (rule assms)
qed

lemma sum_is_or_1:
  "push_bit 4 (c1 AND mask 2) + drop_bit 4 c2 = push_bit 4 (c1 AND mask 2) OR drop_bit 4 (c2::byte)"
  by (rule disjunctive_add) (auto simp: bit_simps dest: bit_imp_le_length)

lemma sum_is_or_2:
  "push_bit 2 (c2 AND mask 4) + drop_bit 6 c3 = push_bit 2 (c2 AND mask 4) OR drop_bit 6 (c3::byte)"
  by (rule disjunctive_add) (auto simp: bit_simps dest: bit_imp_le_length)

lemma group_byte1:
  "push_bit 2 (drop_bit 2 c1 AND 0x3F)
   OR drop_bit 4 ((push_bit 4 (c1 AND 3) + drop_bit 4 c2) AND 0x3F) = (c1::byte)"
  unfolding m63 m3 m15 sum_is_or_1
  by (rule byte_eqI) (auto simp: bit_simps, simp_all add: numeral_2_eq_2 numeral_3_eq_3)

lemma group_byte2:
  "push_bit 4 ((push_bit 4 (c1 AND 3) + drop_bit 4 c2) AND 0x3F)
   OR drop_bit 2 ((push_bit 2 (c2 AND 15) + drop_bit 6 c3) AND 0x3F) = (c2::byte)"
  unfolding m63 m3 m15 sum_is_or_1 sum_is_or_2
  by (rule byte_eqI) (auto simp: bit_simps)

lemma group_byte3:
  "push_bit 6 ((push_bit 2 (c2 AND 15) + drop_bit 6 c3) AND 0x3F) OR (c3 AND 0x3F) = (c3::byte)"
  unfolding m63 m3 m15 sum_is_or_1 sum_is_or_2
  by (rule byte_eqI) (auto simp: bit_simps)

lemma index_of_nth: "distinct xs \<Longrightarrow> k < length xs \<Longrightarrow> index_of (xs ! k) xs = Some k"
proof (induction xs arbitrary: k)
  case Nil
  then show ?case by simp
next
  case (Cons x xs)
  then show ?case
    by (cases k) auto
qed

lemma enc_map_distinct: "distinct base64_enc_map" and enc_map_length: "length base64_enc_map = 64"
  by (simp_all add: base64_enc_map_def)

lemma pad_not_in_map: "base64_pad \<notin> set base64_enc_map"
  by (simp add: base64_enc_map_def base64_pad_def)

lemma masked_lt_64: "unat ((i::byte) AND 0x3F) < 64"
proof -
  have "i AND mask 6 < 2 ^ 6"
    by (rule and_mask_less_size) (simp add: word_size)
  then show ?thesis
    unfolding m63 by (simp add: word_less_nat_alt)
qed

lemma dec_enc_char: "dec_char (enc_char i) = Some (i AND 0x3F)"
  using index_of_nth [OF enc_map_distinct, of "unat (i AND 0x3F)"] masked_lt_64 [of i]
  by (simp add: dec_char_def enc_char_def enc_map_length)

lemma enc_char_not_pad: "enc_char i \<noteq> base64_pad"
proof -
  have "enc_char i \<in> set base64_enc_map"
    unfolding enc_char_def using masked_lt_64 [of i] by (simp add: enc_map_length)
  with pad_not_in_map show ?thesis
    by auto
qed

lemma base64_roundtrip: "base64_decode (base64_encode xs) = Some xs"
proof (induction xs rule: base64_encode.induct)
  case (1 c1 c2 c3 rest)
  with group_byte1 [of c1 c2] group_byte2 [of c1 c2 c3] group_byte3 [of c2 c3] show ?case
    by (simp add: dec_enc_char enc_char_not_pad)
next
  case (2 c1 c2)
  from group_byte2 [of c1 c2 0] group_byte1 [of c1 c2] show ?case
    by (simp add: dec_enc_char enc_char_not_pad)
next
  case (3 c1)
  from group_byte1 [of c1 0] show ?case
    by (simp add: dec_enc_char enc_char_not_pad)
next
  case 4
  then show ?case by simp
qed

lemma base64_encode_append:
  "length xs mod 3 = 0 \<Longrightarrow> base64_encode (xs @ ys) = base64_encode xs @ base64_encode ys"
  by (induction xs rule: base64_encode.induct) simp_all

lemma base64_no_padding:
  "length xs mod 3 = 0 \<Longrightarrow> base64_pad \<notin> set (base64_encode xs)"
  by (induction xs rule: base64_encode.induct) (simp_all add: enc_char_not_pad [symmetric])

subsection \<open>Chunks\<close>

lemma chunks_of_Nil [simp]: "chunks_of n [] = []"
  by (simp add: chunks_of.simps)

lemma concat_chunks_of: "0 < n \<Longrightarrow> concat (chunks_of n xs) = xs"
  by (induction n xs rule: chunks_of.induct) (subst chunks_of.simps, simp)

lemma chunks_of_lengths:
  "c \<in> set (chunks_of n xs) \<Longrightarrow> 0 < length c \<and> length c \<le> n"
proof (induction n xs rule: chunks_of.induct)
  case (1 n xs)
  show ?case
  proof (cases "n = 0 \<or> xs = []")
    case True
    with "1.prems" show ?thesis
      by (simp add: chunks_of.simps)
  next
    case False
    with "1.prems" have "c = take n xs \<or> c \<in> set (chunks_of n (drop n xs))"
      by (subst (asm) chunks_of.simps) simp
    with False "1.IH" show ?thesis
      by auto
  qed
qed

lemma chunks_of_butlast_full:
  "c \<in> set (butlast (chunks_of n xs)) \<Longrightarrow> length c = n"
proof (induction n xs rule: chunks_of.induct)
  case (1 n xs)
  show ?case
  proof (cases "n = 0 \<or> xs = []")
    case True
    with "1.prems" show ?thesis
      by (simp add: chunks_of.simps)
  next
    case False
    show ?thesis
    proof (cases "drop n xs = []")
      case True
      with False "1.prems" show ?thesis
        by (subst (asm) chunks_of.simps) simp
    next
      case dp: False
      then have ne: "chunks_of n (drop n xs) \<noteq> []"
        using False by (subst chunks_of.simps) simp
      from dp have "n \<le> length xs"
        by simp
      with False "1.prems" ne have "c = take n xs \<or> c \<in> set (butlast (chunks_of n (drop n xs)))"
        by (subst (asm) chunks_of.simps) auto
      with False "1.IH" \<open>n \<le> length xs\<close> show ?thesis
        by auto
    qed
  qed
qed

lemma encode_chunks:
  "0 < n \<Longrightarrow> n mod 3 = 0 \<Longrightarrow> concat (map base64_encode (chunks_of n xs)) = base64_encode xs"
proof (induction n xs rule: chunks_of.induct)
  case (1 n xs)
  show ?case
  proof (cases "xs = []")
    case True
    then show ?thesis by simp
  next
    case False
    with 1 have ih: "concat (map base64_encode (chunks_of n (drop n xs)))
                       = base64_encode (drop n xs)"
      by simp
    have split: "chunks_of n xs = take n xs # chunks_of n (drop n xs)"
      using False "1.prems" by (subst chunks_of.simps) simp
    show ?thesis
    proof (cases "n \<le> length xs")
      case True
      with "1.prems" have "length (take n xs) mod 3 = 0"
        by simp
      from base64_encode_append [OF this, of "drop n xs"] ih split show ?thesis
        by simp
    next
      case False
      with ih split show ?thesis
        by simp
    qed
  qed
qed

subsection \<open>pull\<close>

lemma take_fault_none: "faults s = [] \<Longrightarrow> take_fault s = (NoFault, s)"
  by (simp add: take_fault_def)

lemma sys_read_fault_free:
  assumes "faults s = []" "fds s fd = Some e" "\<not> of_write e" "files s (of_path e) = Some content"
  shows "sys_read fd n s =
     (int (length (take n (drop (of_pos e) content))), take n (drop (of_pos e) content),
      s\<lparr>fds := (fds s)(fd \<mapsto> e\<lparr>of_pos := of_pos e + length (take n (drop (of_pos e) content))\<rparr>)\<rparr>)"
  using assms by (simp add: sys_read_def take_fault_none transfer_limit_def Let_def)

lemma encode_chunk:
  assumes "0 < length buf" "length buf \<le> 1023"
  shows "mbedtls_base64_encode (nat ENCODED_SIZE) buf (size_t_of_int (int (length buf)))
           = Inr (base64_encode buf)"
proof -
  have sz: "size_t_of_int (int (length buf)) = length buf"
    using assms by (simp add: size_t_of_int_def)
  have "length buf div 3 + (if length buf mod 3 \<noteq> 0 then 1 else 0) \<le> 341"
    using assms by (auto simp: not_less) presburger+
  with assms show ?thesis
    unfolding sz by (simp add: mbedtls_base64_encode_def ENCODED_SIZE_def CHUNK_SIZE_def
        SIZE_MAX_def Let_def)
qed

lemma pull_loop_fault_free:
  assumes "faults s = []" "fds s fd = Some e" "\<not> of_write e" "files s (of_path e) = Some content"
  shows "\<exists>s'. pull_loop fd s = Returned s'
           \<and> sink s' = sink s @ map (\<lambda>c. YBuffer (base64_encode c))
                                  (chunks_of (nat CHUNK_SIZE) (drop (of_pos e) content))
           \<and> faults s' = [] \<and> files s' = files s \<and> storagePrefix s' = storagePrefix s"
  using assms
proof (induction "length content - of_pos e" arbitrary: s e rule: less_induct)
  case less
  let ?got = "take (nat CHUNK_SIZE) (drop (of_pos e) content)"
  let ?s1 = "s\<lparr>fds := (fds s)(fd \<mapsto> e\<lparr>of_pos := of_pos e + length ?got\<rparr>)\<rparr>"
  note rd = sys_read_fault_free [OF less.prems, of "nat CHUNK_SIZE"]
  show ?case
  proof (cases "?got = []")
    case True
    then have "drop (of_pos e) content = []"
      by (simp add: CHUNK_SIZE_def)
    with rd True less.prems show ?thesis
      by (subst pull_loop.simps) simp
  next
    case False
    then have len: "0 < length ?got" "length ?got \<le> 1023"
      by (simp_all add: CHUNK_SIZE_def)
    note enc = encode_chunk [OF len]
    let ?s2 = "yieldBuffer (base64_encode ?got) ?s1"
    let ?e2 = "e\<lparr>of_pos := of_pos e + length ?got\<rparr>"
    have "pull_loop fd s =
       (case sys_read fd (nat CHUNK_SIZE) s of
        (bytesRead, fileBuffer, s1) \<Rightarrow>
          if bytesRead = 0 then Returned s1
          else
            (case mbedtls_base64_encode (nat ENCODED_SIZE) fileBuffer (size_t_of_int bytesRead) of
               Inl BUFFER_TOO_SMALL \<Rightarrow> Aborted s1
             | Inr encBuffer \<Rightarrow> pull_loop fd (yieldBuffer encBuffer s1)))"
      by (rule pull_loop.simps)
    also have "\<dots> = pull_loop fd ?s2"
    proof -
      from len have n0: "int (length ?got) \<noteq> 0"
        by simp
      show ?thesis
        unfolding rd using n0 enc by (simp only: prod.case if_False sum.case)
    qed
    finally have step: "pull_loop fd s = pull_loop fd ?s2" .
    have pre: "faults ?s2 = []" "fds ?s2 fd = Some ?e2" "\<not> of_write ?e2"
      "files ?s2 (of_path ?e2) = Some content"
      using less.prems by (simp_all add: yieldBuffer_def)
    have dec: "length content - of_pos ?e2 < length content - of_pos e"
      using len(1) by (auto simp: min_def CHUNK_SIZE_def)
    from less.hyps [OF dec pre] obtain s' where s':
      "pull_loop fd ?s2 = Returned s'"
      "sink s' = sink ?s2 @ map (\<lambda>c. YBuffer (base64_encode c))
                                (chunks_of (nat CHUNK_SIZE) (drop (of_pos ?e2) content))"
      "faults s' = []" "files s' = files ?s2" "storagePrefix s' = storagePrefix ?s2"
      by blast
    have dr: "drop (of_pos ?e2) content = drop (nat CHUNK_SIZE) (drop (of_pos e) content)"
      by (simp add: add.commute min_def)
    have ch: "chunks_of (nat CHUNK_SIZE) (drop (of_pos e) content)
                = ?got # chunks_of (nat CHUNK_SIZE) (drop (of_pos ?e2) content)"
      unfolding dr using False by (subst chunks_of.simps) auto
    from s' step ch show ?thesis
      by (simp add: yieldBuffer_def)
  qed
qed

lemma doPull_fault_free:
  assumes "faults s = []" "files s (fsPath s filename) = Some content"
  shows "\<exists>s'. doPull filename s = Returned s'
           \<and> sink s' = sink s @ map (\<lambda>c. YBuffer (base64_encode c))
                                  (chunks_of (nat CHUNK_SIZE) content)
                        @ [YString ''\<newline>'']"
proof -
  let ?p = "fsPath s filename"
  let ?e = "\<lparr>of_path = ?p, of_pos = 0, of_write = False\<rparr>"
  let ?s1 = "s\<lparr>fds := (fds s)(int (next_fd s) \<mapsto> ?e), next_fd := Suc (next_fd s)\<rparr>"
  have op: "sys_open ?p RdOnly s = (int (next_fd s), ?s1)"
    using assms by (simp add: sys_open_def take_fault_none alloc_fd_def Let_def)
  have pre: "faults ?s1 = []" "fds ?s1 (int (next_fd s)) = Some ?e" "\<not> of_write ?e"
    "files ?s1 (of_path ?e) = Some content"
    using assms by simp_all
  from pull_loop_fault_free [OF pre] obtain s2 where s2:
    "pull_loop (int (next_fd s)) ?s1 = Returned s2"
    "sink s2 = sink ?s1 @ map (\<lambda>c. YBuffer (base64_encode c)) (chunks_of (nat CHUNK_SIZE) content)"
    by auto
  obtain r s3 where cl: "sys_close (int (next_fd s)) (yieldString ''\<newline>'' s2) = (r, s3)"
    by (cases "sys_close (int (next_fd s)) (yieldString ''\<newline>'' s2)")
  from sys_close_frame [OF cl] have "sink s3 = sink s2 @ [YString ''\<newline>'']"
    by (simp add: yieldString_def)
  with op s2 cl show ?thesis
    by (simp add: doPull_def)
qed

subsection \<open>The push on a volume that does not fail\<close>

lemma sys_close_fault_free:
  "faults (snd (sys_close fd s)) = faults s \<and> files (snd (sys_close fd s)) = files s
   \<and> storagePrefix (snd (sys_close fd s)) = storagePrefix s
   \<and> next_fd (snd (sys_close fd s)) = next_fd s
   \<and> sink (snd (sys_close fd s)) = sink s"
  by (simp add: sys_close_def split: option.splits)

lemma startFilePush_fault_free:
  assumes "faults s = []"
  shows "faults (startFilePush s) = []
    \<and> 0 \<le> workingFd (startFilePush s)
    \<and> fds (startFilePush s) (workingFd (startFilePush s))
        = Some \<lparr>of_path = workingFilename s, of_pos = 0, of_write = True\<rparr>
    \<and> files (startFilePush s) (workingFilename s) = Some []
    \<and> storagePrefix (startFilePush s) = storagePrefix s"
proof -
  let ?s1 = "if workingFd s \<ge> 0 then snd (sys_close (workingFd s) s) else s"
  have s1: "faults ?s1 = []" "storagePrefix ?s1 = storagePrefix s"
    using assms sys_close_fault_free [of "workingFd s" s] by simp_all
  have o: "sys_open (workingFilename s) WrCreatTrunc ?s1 =
     (int (next_fd ?s1),
      ?s1\<lparr>files := (files ?s1)(workingFilename s \<mapsto> []),
           fds := (fds ?s1)(int (next_fd ?s1) \<mapsto>
                    \<lparr>of_path = workingFilename s, of_pos = 0, of_write = True\<rparr>),
           next_fd := Suc (next_fd ?s1)\<rparr>)"
    using s1(1) by (simp add: sys_open_def take_fault_none alloc_fd_def Let_def)
  have "startFilePush s =
      ?s1\<lparr>files := (files ?s1)(workingFilename s \<mapsto> []),
           fds := (fds ?s1)(int (next_fd ?s1) \<mapsto>
                    \<lparr>of_path = workingFilename s, of_pos = 0, of_write = True\<rparr>),
           next_fd := Suc (next_fd ?s1), workingFd := int (next_fd ?s1)\<rparr>"
    unfolding startFilePush_def workingFilename_prefix [OF s1(2)] o Let_def
    by simp
  with s1 show ?thesis
    by simp
qed

lemma addFileChunk_fault_free:
  assumes "faults s = []" "0 \<le> workingFd s"
    and "fds s (workingFd s) = Some \<lparr>of_path = p, of_pos = length content, of_write = True\<rparr>"
    and "files s p = Some content"
  shows "addFileChunk buf s =
     Returned (s\<lparr>files := (files s)(p \<mapsto> content @ buf),
                fds := (fds s)(workingFd s \<mapsto>
                  \<lparr>of_path = p, of_pos = length content + length buf, of_write = True\<rparr>)\<rparr>)"
  using assms
  by (simp add: addFileChunk_def sys_write_def take_fault_none transfer_limit_def write_at_def
      Let_def)

lemma add_chunks_fault_free:
  assumes "faults s = []" "0 \<le> workingFd s"
    and "fds s (workingFd s) = Some \<lparr>of_path = p, of_pos = length content, of_write = True\<rparr>"
    and "files s p = Some content"
  shows "\<exists>s'. add_chunks chunks s = Returned s' \<and> faults s' = []
           \<and> files s' p = Some (content @ concat chunks)
           \<and> storagePrefix s' = storagePrefix s"
  using assms
proof (induction chunks arbitrary: s content)
  case Nil
  then show ?case by simp
next
  case (Cons c cs)
  let ?s1 = "s\<lparr>files := (files s)(p \<mapsto> content @ c),
                fds := (fds s)(workingFd s \<mapsto>
                  \<lparr>of_path = p, of_pos = length content + length c, of_write = True\<rparr>)\<rparr>"
  have a: "addFileChunk c s = Returned ?s1"
    by (rule addFileChunk_fault_free [OF Cons.prems])
  have pre: "faults ?s1 = []" "0 \<le> workingFd ?s1"
    "fds ?s1 (workingFd ?s1)
       = Some \<lparr>of_path = p, of_pos = length (content @ c), of_write = True\<rparr>"
    "files ?s1 p = Some (content @ c)"
    using Cons.prems by simp_all
  from Cons.IH [OF pre] a show ?case
    by simp
qed

lemma commit_close_fault_free:
  "faults (commit_close s) = faults s \<and> files (commit_close s) = files s
   \<and> storagePrefix (commit_close s) = storagePrefix s"
  using sys_close_fault_free [of "workingFd s" s] by (simp add: commit_close_def)

lemma commit_ensure_fault_free: "faults s = [] \<Longrightarrow> commit_ensure filename s = s"
  by (simp add: commit_ensure_def ensurePath_def take_fault_none)

lemma commit_remove_fault_free:
  assumes "faults s = []"
  shows "faults (commit_remove filename s) = []
    \<and> files (commit_remove filename s) = (files s)(fsPath s filename := None)
    \<and> storagePrefix (commit_remove filename s) = storagePrefix s"
  using assms
  by (cases "files s (fsPath s filename)")
    (simp_all add: commit_remove_def sys_remove_def take_fault_none fun_upd_idem)

lemma commit_reopen_fault_free:
  assumes "faults s = []" "files s (workingFilename s) = Some content"
  shows "\<exists>s4. commit_reopen s = Returned s4 \<and> faults s4 = [] \<and> files s4 = files s
           \<and> storagePrefix s4 = storagePrefix s"
  using assms
  by (simp add: commit_reopen_def sys_open_def take_fault_none alloc_fd_def sys_close_def Let_def)

lemma commit_rename_fault_free:
  assumes "faults s = []" "files s (workingFilename s) = Some content"
    "files s (fsPath s filename) = None"
  shows "faults (commit_rename filename s) = []
    \<and> files (commit_rename filename s) (fsPath s filename) = Some content
    \<and> storagePrefix (commit_rename filename s) = storagePrefix s"
  using assms
  by (simp add: commit_rename_def sys_rename_def take_fault_none)

lemma commit_fault_free:
  assumes f: "faults s = []" and w: "files s (workingFilename s) = Some content"
    and ne: "fsPath s filename \<noteq> workingFilename s"
  shows "\<exists>s'. commitFilePush filename s = Returned s' \<and> faults s' = []
           \<and> files s' (fsPath s filename) = Some content
           \<and> storagePrefix s' = storagePrefix s"
proof -
  define dest where "dest = fsPath s filename"
  define wf where "wf = workingFilename s"
  define s1 where "s1 = commit_close s"
  define s3 where "s3 = commit_remove filename s1"
  have c1: "faults s1 = []" "files s1 = files s" "storagePrefix s1 = storagePrefix s"
    unfolding s1_def using commit_close_fault_free [of s] f by simp_all
  have e: "commit_ensure filename s1 = s1"
    by (rule commit_ensure_fault_free [OF c1(1)])
  have p1: "fsPath s1 filename = dest"
    unfolding dest_def by (rule fsPath_prefix [OF c1(3)])
  have c3: "faults s3 = []" "files s3 = (files s)(dest := None)"
    "storagePrefix s3 = storagePrefix s"
    unfolding s3_def using commit_remove_fault_free [OF c1(1), of filename] c1(2,3) p1
    by simp_all
  have wf3: "workingFilename s3 = wf"
    unfolding wf_def by (rule workingFilename_prefix [OF c3(3)])
  from ne have ne': "dest \<noteq> wf"
    by (simp add: dest_def wf_def)
  from w have w': "files s wf = Some content"
    by (simp add: wf_def)
  have w3: "files s3 (workingFilename s3) = Some content"
    unfolding wf3 c3(2) using ne' w' by simp
  from commit_reopen_fault_free [OF c3(1) w3] obtain s4 where s4:
    "commit_reopen s3 = Returned s4" "faults s4 = []" "files s4 = files s3"
    "storagePrefix s4 = storagePrefix s3"
    by blast
  have p4: "storagePrefix s4 = storagePrefix s"
    using s4(4) c3(3) by simp
  have wf4: "workingFilename s4 = wf"
    unfolding wf_def by (rule workingFilename_prefix [OF p4])
  have d4: "fsPath s4 filename = dest"
    unfolding dest_def by (rule fsPath_prefix [OF p4])
  have w4: "files s4 (workingFilename s4) = Some content"
    unfolding wf4 s4(3) c3(2) using ne' w' by simp
  have n4: "files s4 (fsPath s4 filename) = None"
    unfolding d4 s4(3) c3(2) by simp
  define s5 where "s5 = commit_rename filename s4"
  have c5: "faults s5 = []" "files s5 dest = Some content" "storagePrefix s5 = storagePrefix s"
    unfolding s5_def using commit_rename_fault_free [OF s4(2) w4 n4] d4 p4 by simp_all
  have "commitFilePush filename s = Returned (yieldString ''OK\<newline>'' s5)"
    unfolding commitFilePush_def s1_def [symmetric] e s3_def [symmetric] s4(1) s5_def
    by simp
  moreover have "faults (yieldString ''OK\<newline>'' s5) = []"
    "files (yieldString ''OK\<newline>'' s5) dest = Some content"
    "storagePrefix (yieldString ''OK\<newline>'' s5) = storagePrefix s"
    using c5 by (simp_all add: yieldString_def)
  ultimately show ?thesis
    unfolding dest_def by blast
qed

lemma push_file_fault_free:
  assumes f: "faults s = []" and ne: "fsPath s filename \<noteq> workingFilename s"
  shows "\<exists>s'. push_file chunks filename s = Returned s' \<and> faults s' = []
           \<and> files s' (fsPath s' filename) = Some (concat chunks)"
proof -
  let ?s0 = "startFilePush s"
  note st = startFilePush_fault_free [OF f]
  from st have pre: "faults ?s0 = []" "0 \<le> workingFd ?s0"
    "fds ?s0 (workingFd ?s0)
       = Some \<lparr>of_path = workingFilename s, of_pos = length ([] :: byte list), of_write = True\<rparr>"
    "files ?s0 (workingFilename s) = Some []"
    by simp_all
  from add_chunks_fault_free [OF pre, of chunks] st obtain s1 where s1:
    "add_chunks chunks ?s0 = Returned s1" "faults s1 = []"
    "files s1 (workingFilename s) = Some (concat chunks)" "storagePrefix s1 = storagePrefix s"
    by auto
  have w1: "files s1 (workingFilename s1) = Some (concat chunks)"
    using s1 by (simp add: workingFilename_prefix [OF s1(4)])
  have ne1: "fsPath s1 filename \<noteq> workingFilename s1"
    using ne by (simp add: workingFilename_prefix [OF s1(4)] fsPath_prefix [OF s1(4)])
  from commit_fault_free [OF s1(2) w1 ne1] obtain s2 where s2:
    "commitFilePush filename s1 = Returned s2" "faults s2 = []"
    "files s2 (fsPath s1 filename) = Some (concat chunks)" "storagePrefix s2 = storagePrefix s1"
    by blast
  from s1(1) s2 show ?thesis
    by (simp add: push_file_def fsPath_prefix [OF s2(4)])
qed

text \<open>
  C3. If the \<open>open\<close> fails, \<open>doPull\<close> emits exactly one error fragment, the text of
  \<open>errno\<close>, and returns. For a file that is there, on a volume that does not fail,
  \<open>doPull\<close> emits the base64 encoding of each successive chunk of 1023 bytes, one buffer
  fragment per chunk, each chunk encoded on its own, and then one newline; for an empty
  file the newline alone. The chunks are the file cut in order; each has between 1 and
  1023 bytes, and every chunk but the last has 1023 bytes, a multiple of 3, and its
  encoding has no padding byte.
\<close>

theorem doPull_output:
  "(fst (sys_open (fsPath s filename) RdOnly s) < 0 \<longrightarrow>
      (\<exists>s'. doPull filename s = Returned s'
         \<and> sink s' = sink s @ [YError (strerror (errno s'))]))
   \<and> (faults s = [] \<and> files s (fsPath s filename) = Some content \<longrightarrow>
      (\<exists>s'. doPull filename s = Returned s'
         \<and> sink s' = sink s
             @ map (\<lambda>c. YBuffer (base64_encode c)) (chunks_of (nat CHUNK_SIZE) content)
             @ [YString ''\<newline>'']))
   \<and> (faults s = [] \<and> files s (fsPath s filename) = Some [] \<longrightarrow>
      (\<exists>s'. doPull filename s = Returned s' \<and> sink s' = sink s @ [YString ''\<newline>'']))
   \<and> concat (chunks_of (nat CHUNK_SIZE) content) = content
   \<and> (\<forall>c \<in> set (chunks_of (nat CHUNK_SIZE) content). 0 < length c \<and> length c \<le> 1023)
   \<and> (\<forall>c \<in> set (butlast (chunks_of (nat CHUNK_SIZE) content)).
         length c = 1023 \<and> base64_pad \<notin> set (base64_encode c))"
proof -
  have n: "nat CHUNK_SIZE = 1023"
    by (simp add: CHUNK_SIZE_def)
  have 1: "fst (sys_open (fsPath s filename) RdOnly s) < 0 \<longrightarrow>
      (\<exists>s'. doPull filename s = Returned s'
         \<and> sink s' = sink s @ [YError (strerror (errno s'))])"
    using doPull_open_fails by blast
  have 2: "faults s = [] \<and> files s (fsPath s filename) = Some content \<longrightarrow>
      (\<exists>s'. doPull filename s = Returned s'
         \<and> sink s' = sink s
             @ map (\<lambda>c. YBuffer (base64_encode c)) (chunks_of (nat CHUNK_SIZE) content)
             @ [YString ''\<newline>''])"
    using doPull_fault_free by blast
  have 3: "faults s = [] \<and> files s (fsPath s filename) = Some [] \<longrightarrow>
      (\<exists>s'. doPull filename s = Returned s' \<and> sink s' = sink s @ [YString ''\<newline>''])"
    using doPull_fault_free [of s filename "[]"] by simp
  have 4: "concat (chunks_of (nat CHUNK_SIZE) content) = content"
    by (rule concat_chunks_of) (simp add: n)
  have 5: "\<forall>c \<in> set (chunks_of (nat CHUNK_SIZE) content). 0 < length c \<and> length c \<le> 1023"
    using chunks_of_lengths [of _ "nat CHUNK_SIZE" content] unfolding n by blast
  have 6: "\<forall>c \<in> set (butlast (chunks_of (nat CHUNK_SIZE) content)).
         length c = 1023 \<and> base64_pad \<notin> set (base64_encode c)"
  proof
    fix c assume "c \<in> set (butlast (chunks_of (nat CHUNK_SIZE) content))"
    from chunks_of_butlast_full [OF this] have l: "length c = 1023"
      by (simp add: n)
    then have "length c mod 3 = 0"
      by simp
    from base64_no_padding [OF this] l
    show "length c = 1023 \<and> base64_pad \<notin> set (base64_encode c)"
      by simp
  qed
  from 1 2 3 4 5 6 show ?thesis
    by (intro conjI)
qed

lemma chunks_of_1025:
  "chunks_of (nat CHUNK_SIZE) (replicate 1025 (7::byte)) = [replicate 1023 7, [7, 7]]"
proof -
  have "chunks_of 1023 (replicate 1025 (7::byte))
          = replicate 1023 7 # chunks_of 1023 (replicate 2 7)"
    by (subst chunks_of.simps) simp
  also have "chunks_of 1023 (replicate 2 (7::byte)) = [[7, 7]]"
    by (subst chunks_of.simps) (simp add: numeral_2_eq_2)
  finally show ?thesis
    by (simp add: CHUNK_SIZE_def)
qed

theorem doPull_output_witness:
  "faults (stored_sys (replicate 1025 7)) = []
   \<and> files (stored_sys (replicate 1025 7)) (fsPath (stored_sys (replicate 1025 7)) ''a.txt'')
       = Some (replicate 1025 7)
   \<and> (\<exists>s'. doPull ''a.txt'' (stored_sys (replicate 1025 7)) = Returned s'
          \<and> sink s' = [YBuffer (base64_encode (replicate 1023 7)),
                        YBuffer (map of_char ''Bwc=''), YString ''\<newline>''])
   \<and> fst (sys_open (fsPath (stored_sys []) ''b.txt'') RdOnly (stored_sys [])) < 0
   \<and> (\<exists>s'. doPull ''b.txt'' (stored_sys []) = Returned s'
          \<and> sink s' = [YError ''No such file or directory''])"
proof -
  let ?s = "stored_sys (replicate 1025 7)"
  have h: "faults ?s = []" "files ?s (fsPath ?s ''a.txt'') = Some (replicate 1025 7)"
    by (simp_all add: stored_sys_def demo_sys_def fsPath_def)
  have k: "sink ?s = []"
    by (simp add: stored_sys_def demo_sys_def)
  have h2: "fst (sys_open (fsPath (stored_sys []) ''b.txt'') RdOnly (stored_sys [])) < 0"
    by (simp add: stored_sys_def demo_sys_def fsPath_def sys_open_def take_fault_def)
  have 1: "\<exists>s'. doPull ''a.txt'' ?s = Returned s'
          \<and> sink s' = [YBuffer (base64_encode (replicate 1023 7)),
                        YBuffer (map of_char ''Bwc=''), YString ''\<newline>'']"
    using doPull_output [of ?s "''a.txt''" "replicate 1025 7"] h k
    unfolding chunks_of_1025 by (simp add: enc_char_def base64_enc_map_def base64_pad_def)
  have 2: "\<exists>s'. doPull ''b.txt'' (stored_sys []) = Returned s'
          \<and> sink s' = [YError ''No such file or directory'']"
    using doPull_output [of "stored_sys []" "''b.txt''"] h2
    by (auto simp add: stored_sys_def demo_sys_def fsPath_def sys_open_def take_fault_def
        doPull_def yieldError_def)
  from h 1 h2 2 show ?thesis
    by (intro conjI)
qed


subsection \<open>Round trip\<close>

lemma commit_onto_working_file:
  assumes f: "faults s = []" and w: "files s (workingFilename s) = Some content"
    and eq: "fsPath s filename = workingFilename s"
  shows "\<exists>a. commitFilePush filename s = Aborted a"
proof -
  define wf where "wf = workingFilename s"
  define s1 where "s1 = commit_close s"
  define s3 where "s3 = commit_remove filename s1"
  have c1: "faults s1 = []" "files s1 = files s" "storagePrefix s1 = storagePrefix s"
    unfolding s1_def using commit_close_fault_free [of s] f by simp_all
  have e: "commit_ensure filename s1 = s1"
    by (rule commit_ensure_fault_free [OF c1(1)])
  have p1: "fsPath s1 filename = wf"
    unfolding wf_def eq [symmetric] by (rule fsPath_prefix [OF c1(3)])
  have c3: "faults s3 = []" "files s3 = (files s)(wf := None)"
    "storagePrefix s3 = storagePrefix s"
    unfolding s3_def using commit_remove_fault_free [OF c1(1), of filename] c1(2,3) p1
    by simp_all
  have wf3: "workingFilename s3 = wf"
    unfolding wf_def by (rule workingFilename_prefix [OF c3(3)])
  have "fst (sys_open (workingFilename s3) RdOnly s3) < 0"
    unfolding wf3 using c3(1,2) by (simp add: sys_open_def take_fault_none)
  with commit_reopen_cases [of s3] obtain a where "commit_reopen s3 = Aborted a"
    by blast
  then have "commitFilePush filename s = Aborted a"
    unfolding commitFilePush_def s1_def [symmetric] e s3_def [symmetric] by simp
  then show ?thesis
    by blast
qed

lemma push_file_returned:
  assumes f: "faults s = []" and r: "push_file chunks filename s = Returned s1"
  shows "fsPath s filename \<noteq> workingFilename s"
proof
  assume eq: "fsPath s filename = workingFilename s"
  let ?s0 = "startFilePush s"
  note st = startFilePush_fault_free [OF f]
  from st have pre: "faults ?s0 = []" "0 \<le> workingFd ?s0"
    "fds ?s0 (workingFd ?s0)
       = Some \<lparr>of_path = workingFilename s, of_pos = length ([] :: byte list), of_write = True\<rparr>"
    "files ?s0 (workingFilename s) = Some []"
    by simp_all
  from add_chunks_fault_free [OF pre, of chunks] st obtain t where t:
    "add_chunks chunks ?s0 = Returned t" "faults t = []"
    "files t (workingFilename s) = Some (concat chunks)" "storagePrefix t = storagePrefix s"
    by auto
  have w: "files t (workingFilename t) = Some (concat chunks)"
    using t by (simp add: workingFilename_prefix [OF t(4)])
  have eq': "fsPath t filename = workingFilename t"
    using eq by (simp add: workingFilename_prefix [OF t(4)] fsPath_prefix [OF t(4)])
  from commit_onto_working_file [OF t(2) w eq'] t(1) r show False
    by (simp add: push_file_def)
qed

text \<open>
  C1. On a volume that does not fail, for every list of chunks (so for every file, of any
  size): whenever the push (\<open>startFilePush\<close>, one \<open>addFileChunk\<close> per chunk,
  \<open>commitFilePush\<close>) returns, the pull of the same name returns too, and the base64
  decoding of what the pull emitted, its fragments joined and the final newline taken off,
  is exactly the bytes that were pushed. The push does return for every destination other
  than the working file itself.
\<close>

theorem push_pull_roundtrip:
  assumes "faults s = []"
  shows "(fsPath s filename \<noteq> workingFilename s \<longrightarrow>
            (\<exists>s1. push_file chunks filename s = Returned s1))
    \<and> (\<forall>s1. push_file chunks filename s = Returned s1 \<longrightarrow>
          (\<exists>s2 out. doPull filename s1 = Returned s2
             \<and> sink s2 = sink s1 @ out
             \<and> base64_decode (strip_newline (emitted_bytes out)) = Some (concat chunks)))"
proof (intro conjI impI allI)
  assume "fsPath s filename \<noteq> workingFilename s"
  from push_file_fault_free [OF assms this, of chunks]
  show "\<exists>s1. push_file chunks filename s = Returned s1"
    by blast
next
  fix s1
  assume r: "push_file chunks filename s = Returned s1"
  from push_file_returned [OF assms r] have "fsPath s filename \<noteq> workingFilename s" .
  from push_file_fault_free [OF assms this, of chunks] r have s1:
    "faults s1 = []" "files s1 (fsPath s1 filename) = Some (concat chunks)"
    by auto
  let ?out = "map (\<lambda>c. YBuffer (base64_encode c)) (chunks_of (nat CHUNK_SIZE) (concat chunks))
              @ [YString ''\<newline>'']"
  from doPull_fault_free [OF s1] obtain s2 where s2:
    "doPull filename s1 = Returned s2" "sink s2 = sink s1 @ ?out"
    by auto
  have "emitted_bytes ?out
          = concat (map base64_encode (chunks_of (nat CHUNK_SIZE) (concat chunks)))
            @ [of_char CHR ''\<newline>'']"
    by (simp add: emitted_bytes_def fragment_bytes_def comp_def)
  also have "concat (map base64_encode (chunks_of (nat CHUNK_SIZE) (concat chunks)))
               = base64_encode (concat chunks)"
    by (rule encode_chunks) (simp_all add: CHUNK_SIZE_def)
  finally have "strip_newline (emitted_bytes ?out) = base64_encode (concat chunks)"
    by (simp add: strip_newline_def)
  then have "base64_decode (strip_newline (emitted_bytes ?out)) = Some (concat chunks)"
    by (simp add: base64_roundtrip)
  with s2 show "\<exists>s2 out. doPull filename s1 = Returned s2
             \<and> sink s2 = sink s1 @ out
             \<and> base64_decode (strip_newline (emitted_bytes out)) = Some (concat chunks)"
    by blast
qed

theorem push_pull_roundtrip_witness:
  "faults demo_sys = []
   \<and> fsPath demo_sys ''a.txt'' \<noteq> workingFilename demo_sys
   \<and> (\<exists>s1 s2 out. push_file [[1, 2, 3], [4]] ''a.txt'' demo_sys = Returned s1
          \<and> doPull ''a.txt'' s1 = Returned s2
          \<and> sink s2 = sink s1 @ out
          \<and> base64_decode (strip_newline (emitted_bytes out)) = Some [1, 2, 3, 4])"
proof -
  have h: "faults demo_sys = []" "fsPath demo_sys ''a.txt'' \<noteq> workingFilename demo_sys"
    by (simp_all add: demo_sys_def fsPath_def workingFilename_def)
  from push_pull_roundtrip [OF h(1), of "''a.txt''" "[[1, 2, 3], [4]]"] h show ?thesis
    by auto
qed

lemma pushed_then_pulled_example:
  "sink (state_of (and_then (push_file [[1, 2, 3], [4]] ''a.txt'' demo_sys) (doPull ''a.txt'')))
     = [YString ''OK\<newline>'', YBuffer (map of_char ''AQIDBA==''), YString ''\<newline>'']"
proof -
  have p: "push_file [[1, 2, 3], [4]] ''a.txt'' demo_sys =
     Returned (demo_sys\<lparr>sink := [YString ''OK\<newline>''], files := [''/data/a.txt'' \<mapsto> [1, 2, 3, 4]],
        fds := Map.empty, next_fd := 5, errno := ENOENT\<rparr>)"
    by (simp add: push_file_def startFilePush_def addFileChunk_def sys_write_def
        transfer_limit_def write_at_def demo_sys_def commit_eval fun_upd_twist)
  have c: "chunks_of (nat CHUNK_SIZE) [1, 2, 3, 4 :: byte] = [[1, 2, 3, 4]]"
    by (subst chunks_of.simps) (simp add: CHUNK_SIZE_def)
  have f: "faults (demo_sys\<lparr>sink := [YString ''OK\<newline>''], files := [''/data/a.txt'' \<mapsto> [1, 2, 3, 4]],
        fds := Map.empty, next_fd := 5, errno := ENOENT\<rparr>) = []"
    by (simp add: demo_sys_def)
  from doPull_fault_free [OF f, of "''a.txt''" "[1, 2, 3, 4]"] show ?thesis
    unfolding p c
    by (auto simp add: demo_sys_def fsPath_def enc_char_def base64_enc_map_def base64_pad_def)
qed

subsection \<open>Timer bridge\<close>

text \<open>
  C8. \<open>createTimer\<close> with a period of zero signals an error before any native timer
  exists: \<open>createTimer\<close> returns the error and \<open>dukCreateTimer\<close> throws it, and the machine
  is left as it was (no timer created or started, no entry in the callback registry),
  for both values of \<open>oneShot\<close> and every callback.
\<close>

theorem createTimer_rejects_zero_period:
  "createTimer tick_rate_hz fresh 0 oneShot m
     = (Inl ''Timers with no period are not implemented yet'', m)
   \<and> dukCreateTimer tick_rate_hz fresh [JNumber 0, JBool oneShot, JFunction cb] m
     = (Throws (RuntimeError ''Timers with no period are not implemented yet''), m)"
  by (simp add: createTimer_def dukCreateTimer_def arg_def is_callable_def to_int_def)

theorem createTimer_rejects_zero_period_witness:
  "dukCreateTimer 100 0x3FFB0010 [JNumber 0, JBool False, JFunction 7] demo_machine
     = (Throws (RuntimeError ''Timers with no period are not implemented yet''), demo_machine)"
  using createTimer_rejects_zero_period [of 100 "0x3FFB0010" False demo_machine 7]
  by simp












lemma dukInvokeTimer_absent:
  "timerSlot m timerId = None \<Longrightarrow>
     dukInvokeTimer duk_call [JNumber timerId, JBool cleanup] m = (Throws TypeError, m)"
  by (simp add: dukInvokeTimer_def get_prop_def arg_def is_callable_def)

text \<open>
  C10. When the timer id of a deferred invocation has no entry in the registry, the
  invocation is not ignored: \<open>dukInvokeTimer\<close> requires the value it looked up to be
  callable and throws a \<open>TypeError\<close>, the machine unchanged (nothing is called, no
  cleanup is done); so does the scripting loop's drain step, which only takes the request
  off the queue. \<open>dukDeleteTimer\<close> on an id that is not in the registry changes nothing:
  no registry entry and no native timer is deleted.
\<close>

theorem absent_registry_entry:
  assumes "timerSlot m timerId = None"
  shows "dukInvokeTimer duk_call [JNumber timerId, JBool cleanup] m = (Throws TypeError, m)
    \<and> drain duk_call (m\<lparr>scheduled := (timerId, cleanup) # rest\<rparr>)
        = (Throws TypeError, m\<lparr>scheduled := rest\<rparr>)
    \<and> dukDeleteTimer [JNumber timerId] m = (Returns JUndefined, m)"
proof -
  from assms have "timerSlot (m\<lparr>scheduled := rest\<rparr>) timerId = None"
    by simp
  from dukInvokeTimer_absent [OF this]
  have "drain duk_call (m\<lparr>scheduled := (timerId, cleanup) # rest\<rparr>)
          = (Throws TypeError, m\<lparr>scheduled := rest\<rparr>)"
    by (simp add: drain_def)
  moreover from assms have "dukDeleteTimer [JNumber timerId] m = (Returns JUndefined, m)"
    by (simp add: dukDeleteTimer_def has_prop_def arg_def)
  ultimately show ?thesis
    using dukInvokeTimer_absent [OF assms] by simp
qed

theorem absent_registry_entry_witness:
  "timerSlot demo_machine 5 = None
   \<and> drain idle_script (demo_machine\<lparr>scheduled := [(5, True)]\<rparr>)
       = (Throws TypeError, demo_machine\<lparr>scheduled := []\<rparr>)
   \<and> dukDeleteTimer [JNumber 5] demo_machine = (Returns JUndefined, demo_machine)"
proof -
  have h: "timerSlot demo_machine 5 = None"
    by (simp add: demo_machine_def)
  from absent_registry_entry [OF h, of idle_script True "[]"] h show ?thesis
    by simp
qed

end
